theory Spec2Isabelle
  imports Complex_Main
begin

section \<open>JavaScript values used by JazzyScroll\<close>

text \<open>
  Numbers. A JavaScript number is NaN, an infinity or a finite value. A finite value
  is an integer where the code produces integers (\<open>parseInt\<close>, \<open>Math.floor\<close>) and
  a rational elsewhere (timestamps, positions, progress). The operations \<open>js_add\<close>,
  \<open>js_sub\<close>, \<open>js_mul\<close> and \<open>js_div\<close> give the exact result; the arithmetic of
  \<open>animateNumber\<close> rounds it to binary64 (\<open>dbl_add\<close> and the like, below).
\<close>

datatype 'a jsnum = NaN | PInf | NInf | Fin 'a

fun isNaN :: "'a jsnum \<Rightarrow> bool" where
  "isNaN NaN = True"
| "isNaN _ = False"

fun toRat :: "int jsnum \<Rightarrow> rat jsnum" where
  "toRat NaN = NaN"
| "toRat PInf = PInf"
| "toRat NInf = NInf"
| "toRat (Fin n) = Fin (of_int n)"

text \<open>\<open>a + b\<close> on numbers.\<close>

fun js_add :: "'a::linordered_idom jsnum \<Rightarrow> 'a jsnum \<Rightarrow> 'a jsnum" where
  "js_add (Fin a) (Fin b) = Fin (a + b)"
| "js_add NaN _ = NaN"
| "js_add _ NaN = NaN"
| "js_add PInf NInf = NaN"
| "js_add NInf PInf = NaN"
| "js_add PInf _ = PInf"
| "js_add _ PInf = PInf"
| "js_add NInf _ = NInf"
| "js_add _ NInf = NInf"

text \<open>\<open>a - b\<close> on numbers.\<close>

fun js_neg :: "'a::linordered_idom jsnum \<Rightarrow> 'a jsnum" where
  "js_neg (Fin a) = Fin (- a)"
| "js_neg NaN = NaN"
| "js_neg PInf = NInf"
| "js_neg NInf = PInf"

definition js_sub :: "'a::linordered_idom jsnum \<Rightarrow> 'a jsnum \<Rightarrow> 'a jsnum" where
  "js_sub a b = js_add a (js_neg b)"

text \<open>\<open>a * b\<close> on numbers.\<close>

fun js_mul :: "'a::linordered_idom jsnum \<Rightarrow> 'a jsnum \<Rightarrow> 'a jsnum" where
  "js_mul (Fin a) (Fin b) = Fin (a * b)"
| "js_mul NaN _ = NaN"
| "js_mul _ NaN = NaN"
| "js_mul PInf (Fin b) = (if b = 0 then NaN else if 0 < b then PInf else NInf)"
| "js_mul NInf (Fin b) = (if b = 0 then NaN else if 0 < b then NInf else PInf)"
| "js_mul (Fin a) PInf = (if a = 0 then NaN else if 0 < a then PInf else NInf)"
| "js_mul (Fin a) NInf = (if a = 0 then NaN else if 0 < a then NInf else PInf)"
| "js_mul PInf PInf = PInf"
| "js_mul NInf NInf = PInf"
| "js_mul PInf NInf = NInf"
| "js_mul NInf PInf = NInf"

text \<open>\<open>a / b\<close> on numbers; a zero divisor is taken as positive zero.\<close>

fun js_div :: "rat jsnum \<Rightarrow> rat jsnum \<Rightarrow> rat jsnum" where
  "js_div (Fin a) (Fin b) =
     (if b = 0 then (if a = 0 then NaN else if 0 < a then PInf else NInf)
      else Fin (a / b))"
| "js_div NaN _ = NaN"
| "js_div _ NaN = NaN"
| "js_div (Fin a) _ = Fin 0"
| "js_div PInf (Fin b) = (if 0 \<le> b then PInf else NInf)"
| "js_div NInf (Fin b) = (if 0 \<le> b then NInf else PInf)"
| "js_div _ _ = NaN"

text \<open>\<open>a < b\<close> and \<open>a <= b\<close>: false as soon as one side is NaN.\<close>

fun js_lt :: "'a::linorder jsnum \<Rightarrow> 'a jsnum \<Rightarrow> bool" where
  "js_lt (Fin a) (Fin b) = (a < b)"
| "js_lt NaN _ = False"
| "js_lt _ NaN = False"
| "js_lt _ NInf = False"
| "js_lt PInf _ = False"
| "js_lt NInf _ = True"
| "js_lt _ PInf = True"

fun js_le :: "'a::linorder jsnum \<Rightarrow> 'a jsnum \<Rightarrow> bool" where
  "js_le (Fin a) (Fin b) = (a \<le> b)"
| "js_le NaN _ = False"
| "js_le _ NaN = False"
| "js_le NInf _ = True"
| "js_le _ PInf = True"
| "js_le _ NInf = False"
| "js_le PInf _ = False"

text \<open>\<open>Math.min(a, b)\<close>: NaN if either argument is NaN.\<close>

fun Math_min :: "'a::linorder jsnum \<Rightarrow> 'a jsnum \<Rightarrow> 'a jsnum" where
  "Math_min NaN _ = NaN"
| "Math_min _ NaN = NaN"
| "Math_min a b = (if js_le a b then a else b)"

text \<open>\<open>Math.floor(a)\<close>.\<close>

fun Math_floor :: "rat jsnum \<Rightarrow> int jsnum" where
  "Math_floor (Fin a) = Fin \<lfloor>a\<rfloor>"
| "Math_floor NaN = NaN"
| "Math_floor PInf = PInf"
| "Math_floor NInf = NInf"

subsection \<open>Arithmetic in binary64\<close>

text \<open>
  A JavaScript number is an IEEE 754 binary64 value, and the result of an arithmetic
  operation is the exact result rounded to the nearest such value, ties to the even
  one. \<open>pow2 k\<close> is \<open>2^k\<close> for an integer \<open>k\<close>; \<open>exponentOf a\<close> is the
  \<open>e\<close> with \<open>2^e <= a < 2^(e+1)\<close> for a positive \<open>a\<close>; \<open>roundMagnitude a\<close>
  rounds a positive \<open>a\<close> to a multiple of the spacing at its exponent, which is
  \<open>2^(e-52)\<close> and, below \<open>2^(-1022)\<close>, the spacing \<open>2^(-1074)\<close> of the
  subnormal numbers; \<open>toDouble\<close> rounds any rational, to an infinity from
  \<open>2^1024\<close> on. Negative zero is not told from zero.
\<close>

definition pow2 :: "int \<Rightarrow> rat" where
  "pow2 k = (if 0 \<le> k then 2 ^ nat k else 1 / 2 ^ nat (- k))"

definition roundHalfEven :: "rat \<Rightarrow> int" where
  "roundHalfEven x =
     (let f = \<lfloor>x\<rfloor>; d = x - of_int f
      in if d < 1 / 2 then f else if 1 / 2 < d then f + 1 else if even f then f else f + 1)"

function bitLength :: "int \<Rightarrow> nat" where
  "bitLength n = (if n \<le> 0 then 0 else Suc (bitLength (n div 2)))"
  by pat_completeness auto
termination
  by (relation "measure nat") auto

declare bitLength.simps [simp del]

definition exponentOf :: "rat \<Rightarrow> int" where
  "exponentOf a =
     (let (p, q) = quotient_of a;
          k = int (bitLength p) - int (bitLength q)
      in if pow2 k \<le> a then k else k - 1)"

definition roundMagnitude :: "rat \<Rightarrow> rat" where
  "roundMagnitude a =
     (let u = pow2 (max (exponentOf a) (- 1022) - 52)
      in of_int (roundHalfEven (a / u)) * u)"

definition toDouble :: "rat \<Rightarrow> rat jsnum" where
  "toDouble x =
     (if x = 0 then Fin 0
      else if 0 < x
        then (if pow2 1024 \<le> roundMagnitude x then PInf else Fin (roundMagnitude x))
        else (if pow2 1024 \<le> roundMagnitude (- x) then NInf else Fin (- roundMagnitude (- x))))"

text \<open>
  The four operations as the code computes them: the exact result, rounded.
\<close>

fun roundResult :: "rat jsnum \<Rightarrow> rat jsnum" where
  "roundResult (Fin x) = toDouble x"
| "roundResult NaN = NaN"
| "roundResult PInf = PInf"
| "roundResult NInf = NInf"

definition dbl_add :: "rat jsnum \<Rightarrow> rat jsnum \<Rightarrow> rat jsnum" where
  "dbl_add a b = roundResult (js_add a b)"

definition dbl_sub :: "rat jsnum \<Rightarrow> rat jsnum \<Rightarrow> rat jsnum" where
  "dbl_sub a b = roundResult (js_sub a b)"

definition dbl_mul :: "rat jsnum \<Rightarrow> rat jsnum \<Rightarrow> rat jsnum" where
  "dbl_mul a b = roundResult (js_mul a b)"

definition dbl_div :: "rat jsnum \<Rightarrow> rat jsnum \<Rightarrow> rat jsnum" where
  "dbl_div a b = roundResult (js_div a b)"

text \<open>
  An integer that \<open>parseInt\<close> has read is a binary64 value too when the arithmetic
  uses it.
\<close>

definition asDouble :: "int jsnum \<Rightarrow> rat jsnum" where
  "asDouble n = roundResult (toRat n)"

subsection \<open>Numbers as text\<close>

text \<open>
  The decimal text of an integer, as \<open>String(n)\<close> gives it below \<open>10^21\<close>
  (above, JavaScript switches to exponent notation; the model keeps the digits).
\<close>

fun natToString :: "nat \<Rightarrow> string" where
  "natToString n =
     (if n < 10 then [''0123456789'' ! n]
      else natToString (n div 10) @ [''0123456789'' ! (n mod 10)])"

declare natToString.simps [simp del]

definition intToString :: "int \<Rightarrow> string" where
  "intToString i = (if i < 0 then CHR ''-'' # natToString (nat (- i)) else natToString (nat i))"

fun numberToString :: "int jsnum \<Rightarrow> string" where
  "numberToString NaN = ''NaN''"
| "numberToString PInf = ''Infinity''"
| "numberToString NInf = ''-Infinity''"
| "numberToString (Fin i) = intToString i"

text \<open>
  The values that meet in one expression of the code: \<open>undefined\<close> (a setting that
  was not given), \<open>null\<close> (a missing attribute), an integer or a string.
\<close>

datatype jsval = Undefined | Null | Num int | Str string

fun truthy :: "jsval \<Rightarrow> bool" where
  "truthy Undefined = False"
| "truthy Null = False"
| "truthy (Num n) = (n \<noteq> 0)"
| "truthy (Str s) = (s \<noteq> [])"

text \<open>\<open>a || b\<close>.\<close>

definition js_or :: "jsval \<Rightarrow> jsval \<Rightarrow> jsval" where
  "js_or a b = (if truthy a then a else b)"

fun ToString :: "jsval \<Rightarrow> string" where
  "ToString Undefined = ''undefined''"
| "ToString Null = ''null''"
| "ToString (Num n) = intToString n"
| "ToString (Str s) = s"

subsection \<open>parseInt\<close>

text \<open>
  \<open>parseInt(v)\<close> with no radix: the argument as a string, leading white space dropped,
  an optional sign, an optional \<open>0x\<close> prefix (then base 16), the longest run of digits of
  the base; NaN if that run is empty. White space is the ASCII white space.
\<close>

definition isWhiteSpace :: "char \<Rightarrow> bool" where
  "isWhiteSpace c = (c \<in> set [CHR '' '', CHR 0x09, CHR 0x0A, CHR 0x0B, CHR 0x0C, CHR 0x0D])"

definition digitValue :: "char \<Rightarrow> nat" where
  "digitValue c =
     (let n = (of_char c :: nat)
      in if 48 \<le> n \<and> n \<le> 57 then n - 48
         else if 97 \<le> n \<and> n \<le> 122 then n - 87
         else if 65 \<le> n \<and> n \<le> 90 then n - 55
         else 36)"

definition isRadixDigit :: "nat \<Rightarrow> char \<Rightarrow> bool" where
  "isRadixDigit R c = (digitValue c < R)"

definition radixValue :: "nat \<Rightarrow> string \<Rightarrow> nat" where
  "radixValue R Z = foldl (\<lambda>acc c. acc * R + digitValue c) 0 Z"

definition parseDigits :: "int \<Rightarrow> nat \<Rightarrow> string \<Rightarrow> int jsnum" where
  "parseDigits sign R S =
     (let Z = takeWhile (isRadixDigit R) S
      in if Z = [] then NaN else Fin (sign * int (radixValue R Z)))"

definition stripPrefix :: "int \<Rightarrow> string \<Rightarrow> int jsnum" where
  "stripPrefix sign S =
     (if take 2 S = ''0x'' \<or> take 2 S = ''0X'' then parseDigits sign 16 (drop 2 S)
      else parseDigits sign 10 S)"

definition parseIntString :: "string \<Rightarrow> int jsnum" where
  "parseIntString inputString =
     (let S = dropWhile isWhiteSpace inputString
      in case S of
           [] \<Rightarrow> NaN
         | c # rest \<Rightarrow>
             if c = CHR ''-'' then stripPrefix (- 1) rest
             else if c = CHR ''+'' then stripPrefix 1 rest
             else stripPrefix 1 S)"

definition parseInt :: "jsval \<Rightarrow> int jsnum" where
  "parseInt v = parseIntString (ToString v)"

text \<open>\<open>s.includes(t)\<close>: \<open>t\<close> occurs in \<open>s\<close> as a contiguous run.\<close>

fun startsWith :: "string \<Rightarrow> string \<Rightarrow> bool" where
  "startsWith _ [] = True"
| "startsWith [] (_ # _) = False"
| "startsWith (c # cs) (d # ds) = (c = d \<and> startsWith cs ds)"

fun includes_str :: "string \<Rightarrow> string \<Rightarrow> bool" where
  "includes_str [] t = (t = [])"
| "includes_str (c # cs) t = (startsWith (c # cs) t \<or> includes_str cs t)"

section \<open>The page and the engine\<close>

text \<open>
  A DOM element, with the properties the engine reads and writes. \<open>boundingTop\<close> is
  what \<open>getBoundingClientRect().top\<close> reports; \<open>jazzySpeed\<close>, \<open>jazzyDelay\<close>,
  \<open>jazzyOffset\<close> and \<open>options\<close> are the properties \<open>addElement\<close> adds
  (\<open>None\<close> while not set); \<open>options\<close> holds a reference, the address of an object
  in the heap. \<open>transitionDuration\<close> and \<open>transitionDelay\<close> are the values assigned
  to \<open>element.style\<close>.
\<close>

type_synonym node = nat

record element =
  attributes :: "string \<rightharpoonup> string"
  classList :: "string list"
  textContent :: string
  boundingTop :: rat
  jazzySpeed :: "string option"
  jazzyDelay :: "string option"
  jazzyOffset :: "int jsnum option"
  options :: "nat option"
  transitionDuration :: "string option"
  transitionDelay :: "string option"

definition getAttribute :: "element \<Rightarrow> string \<Rightarrow> jsval" where
  "getAttribute el name = (case attributes el name of None \<Rightarrow> Null | Some v \<Rightarrow> Str v)"

text \<open>\<open>classList.add(c)\<close>: a token list holds each class once.\<close>

definition classList_add :: "string \<Rightarrow> element \<Rightarrow> element" where
  "classList_add c el =
     (if c \<in> set (classList el) then el else el\<lparr>classList := classList el @ [c]\<rparr>)"

text \<open>The tree of nodes: an element with its children, or a node of another type.\<close>

datatype dnode = ElementNode node "dnode list" | OtherNode

fun elementsOf :: "dnode \<Rightarrow> node list" where
  "elementsOf (ElementNode e cs) = e # concat (map elementsOf cs)"
| "elementsOf OtherNode = []"

fun descendants :: "dnode \<Rightarrow> node list" where
  "descendants (ElementNode e cs) = concat (map elementsOf cs)"
| "descendants OtherNode = []"

text \<open>The options object of line 65, and what an IntersectionObserver keeps.\<close>

record options_obj =
  rootMargin :: string
  threshold :: "int list"

record intersection_observer =
  observerRootMargin :: string
  observerThresholds :: "int list"
  targets :: "node list"

record entry =
  isIntersecting :: bool
  boundingClientRectTop :: rat
  target :: node

text \<open>The closure of one \<open>animateNumber\<close> call.\<close>

record ramp =
  rampElement :: node
  rampStart :: "int jsnum"
  rampEnd :: "int jsnum"
  rampDuration :: "rat jsnum"
  startTimestamp :: "rat option"

datatype raf_callback = InitCallback | StepCallback nat

datatype error = TypeError

text \<open>
  The state: the elements of the page, the engine (\<open>this.speed\<close>, \<open>this.delay\<close>,
  \<open>this.offset\<close>; with IntersectionObserver \<open>this.options\<close>, a reference into the
  heap, and the observers created; without it \<open>viewportBottom\<close> and
  \<open>this.jazzyElements\<close>), the running ramps and the callbacks handed to
  \<open>requestAnimationFrame\<close>. \<open>animateInCalls\<close> and \<open>isInViewportCalls\<close> record,
  in order, the arguments of every call of \<open>animateIn\<close> and \<open>isInViewport\<close>.
\<close>

record world =
  nodes :: "node \<Rightarrow> element"
  speed :: int
  delay :: int
  offset :: int
  supportsIntersectionObserver :: bool
  thisOptions :: nat
  heap :: "nat \<Rightarrow> options_obj"
  intersectionObservers :: "intersection_observer list"
  viewportBottom :: int
  jazzyElements :: "node list"
  ramps :: "ramp list"
  rafQueue :: "raf_callback list"
  animateInCalls :: "node list"
  isInViewportCalls :: "node list"

definition updateNode :: "node \<Rightarrow> (element \<Rightarrow> element) \<Rightarrow> world \<Rightarrow> world" where
  "updateNode e f w = w\<lparr>nodes := (nodes w)(e := f (nodes w e))\<rparr>"

definition requestAnimationFrame :: "raf_callback \<Rightarrow> world \<Rightarrow> world" where
  "requestAnimationFrame cb w = w\<lparr>rafQueue := rafQueue w @ [cb]\<rparr>"

subsection \<open>animateNumber (lines 227-249)\<close>

text \<open>
  The call creates the closure and asks for the first frame. \<open>step\<close> is the frame
  callback: \<open>stepStart\<close> is \<open>startTimestamp\<close> after the \<open>if\<close> (null and \<open>0\<close>
  are both falsy), \<open>stepElapsed\<close> the difference \<open>timestamp - startTimestamp\<close>,
  \<open>stepProgress\<close> the constant \<open>progress\<close>, \<open>stepValue\<close> the number assigned to
  \<open>element.textContent\<close>, \<open>stepAgain\<close> the test of line 242. Every operation of
  lines 236 and 239 rounds its result to binary64.
\<close>

definition animateNumber ::
    "node \<Rightarrow> int jsnum \<Rightarrow> int jsnum \<Rightarrow> rat jsnum \<Rightarrow> world \<Rightarrow> world" where
  "animateNumber element start end' duration w =
     requestAnimationFrame (StepCallback (length (ramps w)))
       (w\<lparr>ramps := ramps w @
           [\<lparr>rampElement = element, rampStart = start, rampEnd = end',
             rampDuration = duration, startTimestamp = None\<rparr>]\<rparr>)"

definition stepStart :: "ramp \<Rightarrow> rat \<Rightarrow> rat" where
  "stepStart r timestamp =
     (case startTimestamp r of
        None \<Rightarrow> timestamp
      | Some t0 \<Rightarrow> if t0 = 0 then timestamp else t0)"

definition stepElapsed :: "ramp \<Rightarrow> rat \<Rightarrow> rat jsnum" where
  "stepElapsed r timestamp = dbl_sub (Fin timestamp) (Fin (stepStart r timestamp))"

definition stepProgress :: "ramp \<Rightarrow> rat \<Rightarrow> rat jsnum" where
  "stepProgress r timestamp =
     Math_min (dbl_div (stepElapsed r timestamp) (rampDuration r)) (Fin 1)"

definition stepValue :: "ramp \<Rightarrow> rat \<Rightarrow> int jsnum" where
  "stepValue r timestamp =
     Math_floor (dbl_add (dbl_mul (stepProgress r timestamp)
                                  (dbl_sub (asDouble (rampEnd r)) (asDouble (rampStart r))))
                         (asDouble (rampStart r)))"

definition stepAgain :: "ramp \<Rightarrow> rat \<Rightarrow> bool" where
  "stepAgain r timestamp = js_lt (stepProgress r timestamp) (Fin 1)"

definition step :: "nat \<Rightarrow> rat \<Rightarrow> world \<Rightarrow> world" where
  "step k timestamp w =
     (if k < length (ramps w) then
        let r = ramps w ! k;
            w1 = w\<lparr>ramps := (ramps w)[k := r\<lparr>startTimestamp := Some (stepStart r timestamp)\<rparr>]\<rparr>;
            w2 = updateNode (rampElement r)
                   (\<lambda>el. el\<lparr>textContent := numberToString (stepValue r timestamp)\<rparr>) w1
        in if stepAgain r timestamp then requestAnimationFrame (StepCallback k) w2 else w2
      else w)"

subsection \<open>animateIn (lines 33-50)\<close>

definition startNumber :: "element \<Rightarrow> int jsnum" where
  "startNumber el = parseInt (js_or (getAttribute el ''data-jazzy-scroll-count-start'') (Num 0))"

definition endNumber :: "element \<Rightarrow> int jsnum" where
  "endNumber el =
     parseInt (js_or (getAttribute el ''data-jazzy-scroll-count-end'') (Str (textContent el)))"

text \<open>
  A null \<open>animationType\<close> has no \<open>includes\<close>: the call throws a TypeError. The
  duration handed to \<open>animateNumber\<close> is \<open>_this.speed\<close>.
\<close>

definition animateIn :: "node \<Rightarrow> world \<Rightarrow> error + world" where
  "animateIn element w0 =
     (let w = w0\<lparr>animateInCalls := animateInCalls w0 @ [element]\<rparr>;
          el = nodes w element
      in case attributes el ''data-jazzy-scroll'' of
           None \<Rightarrow> Inl TypeError
         | Some animationType \<Rightarrow>
             let w1 = (if includes_str animationType ''count''
                       then (if \<not> isNaN (startNumber el) \<and> \<not> isNaN (endNumber el)
                             then animateNumber element (startNumber el) (endNumber el)
                                    (Fin (of_int (speed w))) w
                             else w)
                       else w)
             in Inr (updateNode element (classList_add ''animated-in'') w1))"

subsection \<open>addElement (lines 75-99 and 122-129)\<close>

text \<open>
  The three values both variants read from the element, falling back on the engine's.
\<close>

definition resolveSpeed :: "world \<Rightarrow> element \<Rightarrow> string" where
  "resolveSpeed w el =
     ToString (if truthy (getAttribute el ''data-jazzy-scroll-speed'')
               then getAttribute el ''data-jazzy-scroll-speed'' else Num (speed w)) @ ''ms''"

definition resolveDelay :: "world \<Rightarrow> element \<Rightarrow> string" where
  "resolveDelay w el =
     ToString (if truthy (getAttribute el ''data-jazzy-scroll-delay'')
               then getAttribute el ''data-jazzy-scroll-delay'' else Num (delay w)) @ ''ms''"

definition resolveOffset :: "world \<Rightarrow> element \<Rightarrow> int jsnum" where
  "resolveOffset w el =
     parseInt (if truthy (getAttribute el ''data-jazzy-scroll-offset'')
               then getAttribute el ''data-jazzy-scroll-offset'' else Num (offset w))"

definition marginOf :: "int jsnum \<Rightarrow> string" where
  "marginOf off = ''0px 0px '' @ numberToString (js_mul off (Fin (- 1))) @ ''px 0px''"

text \<open>
  With IntersectionObserver: \<open>element.options\<close> becomes the reference
  \<open>this.options\<close>, the object behind it gets the margin of this element, and a new
  observer, which reads its margin and thresholds from that object when it is made,
  observes the element. The host's constructor is taken to accept the margin it is
  given (a browser rejects a margin that is not in pixels or percent, which this code
  writes only when the offset is NaN).
\<close>

definition addElementObserver :: "node \<Rightarrow> world \<Rightarrow> world" where
  "addElementObserver element w =
     (let el = nodes w element;
          el1 = el\<lparr>jazzySpeed := Some (resolveSpeed w el),
                   jazzyDelay := Some (resolveDelay w el),
                   jazzyOffset := Some (resolveOffset w el),
                   options := Some (thisOptions w)\<rparr>;
          h = (heap w)(thisOptions w :=
                 (heap w (thisOptions w))\<lparr>rootMargin := marginOf (resolveOffset w el)\<rparr>);
          el2 = el1\<lparr>transitionDuration := Some (resolveSpeed w el),
                    transitionDelay := Some (resolveDelay w el)\<rparr>;
          intersectionObserver =
            \<lparr>observerRootMargin = rootMargin (h (thisOptions w)),
             observerThresholds = threshold (h (thisOptions w)),
             targets = [element]\<rparr>
      in w\<lparr>nodes := (nodes w)(element := el2), heap := h,
           intersectionObservers := intersectionObservers w @ [intersectionObserver]\<rparr>)"

text \<open>Without it: the element is pushed on \<open>this.jazzyElements\<close>.\<close>

definition addElementPolling :: "node \<Rightarrow> world \<Rightarrow> world" where
  "addElementPolling element w =
     (let el = nodes w element;
          el1 = el\<lparr>jazzySpeed := Some (resolveSpeed w el),
                   jazzyDelay := Some (resolveDelay w el),
                   jazzyOffset := Some (resolveOffset w el)\<rparr>;
          el2 = el1\<lparr>transitionDuration := Some (resolveSpeed w el),
                    transitionDelay := Some (resolveDelay w el)\<rparr>
      in w\<lparr>nodes := (nodes w)(element := el2),
           jazzyElements := jazzyElements w @ [element]\<rparr>)"

text \<open>\<open>_this.addElement\<close>: the variant chosen once, at line 63.\<close>

definition addElement :: "node \<Rightarrow> world \<Rightarrow> world" where
  "addElement element w =
     (if supportsIntersectionObserver w then addElementObserver element w
      else addElementPolling element w)"

subsection \<open>The observer's callback (lines 86-97)\<close>

text \<open>
  The callback of the observer at position \<open>k\<close>, called with its entries. An empty
  list has no first entry, and reading a property of \<open>undefined\<close> throws.
  \<open>disconnect\<close> empties the observer's targets.
\<close>

definition disconnect :: "nat \<Rightarrow> world \<Rightarrow> world" where
  "disconnect k w =
     w\<lparr>intersectionObservers :=
         (intersectionObservers w)[k := (intersectionObservers w ! k)\<lparr>targets := []\<rparr>]\<rparr>"

definition intersectionCallback :: "nat \<Rightarrow> entry list \<Rightarrow> world \<Rightarrow> error + world" where
  "intersectionCallback k entries w =
     (case entries of
        [] \<Rightarrow> Inl TypeError
      | entry # _ \<Rightarrow>
          if isIntersecting entry \<or> boundingClientRectTop entry \<le> 0
          then (case animateIn (target entry) w of
                  Inl err \<Rightarrow> Inl err
                | Inr w1 \<Rightarrow> Inr (disconnect k w1))
          else Inr w)"

subsection \<open>isInViewport and init without IntersectionObserver (lines 138-159)\<close>

text \<open>An element whose \<open>jazzyOffset\<close> is not set has \<open>undefined\<close> there: NaN in a sum.\<close>

definition isInViewport :: "world \<Rightarrow> node \<Rightarrow> bool" where
  "isInViewport w element =
     js_le (js_add (Fin (boundingTop (nodes w element)))
                   (case jazzyOffset (nodes w element) of
                      None \<Rightarrow> NaN
                    | Some off \<Rightarrow> toRat off))
           (Fin (of_int (viewportBottom w)))"

text \<open>\<open>splice(i, 1)\<close>.\<close>

definition splice1 :: "nat \<Rightarrow> 'a list \<Rightarrow> 'a list" where
  "splice1 i xs = take i xs @ drop (Suc i) xs"

text \<open>
  The loop of \<open>init\<close>, \<open>for (let i = length - 1; i >= 0; i--)\<close>. The first argument
  is \<open>i + 1\<close>: \<open>0\<close> ends the loop, \<open>Suc i\<close> runs the body at index \<open>i\<close>. An
  index outside the array reads \<open>undefined\<close>, on which \<open>isInViewport\<close> throws.
\<close>

fun initLoop :: "nat \<Rightarrow> world \<Rightarrow> error + world" where
  "initLoop 0 w = Inr w"
| "initLoop (Suc i) w =
     (if i < length (jazzyElements w) then
        let element = jazzyElements w ! i;
            w1 = w\<lparr>isInViewportCalls := isInViewportCalls w @ [element]\<rparr>
        in if isInViewport w element
           then (case animateIn element w1 of
                   Inl err \<Rightarrow> Inl err
                 | Inr w2 \<Rightarrow> initLoop i (w2\<lparr>jazzyElements := splice1 i (jazzyElements w2)\<rparr>))
           else initLoop i w1
      else Inl TypeError)"

definition pollingInit :: "world \<Rightarrow> error + world" where
  "pollingInit w =
     (case initLoop (length (jazzyElements w)) w of
        Inl err \<Rightarrow> Inl err
      | Inr w1 \<Rightarrow> Inr (requestAnimationFrame InitCallback w1))"

text \<open>The resize listener (lines 176-180), with the new \<open>window.innerHeight\<close>.\<close>

definition onResize :: "int \<Rightarrow> world \<Rightarrow> world" where
  "onResize innerHeight w =
     (if viewportBottom w \<noteq> innerHeight then w\<lparr>viewportBottom := innerHeight\<rparr> else w)"

subsection \<open>The MutationObserver's callback (lines 194-212)\<close>

text \<open>
  \<open>matches\<close> is the selector \<open>[data-jazzy-scroll]:not(.animated-in)\<close> on one
  element; \<open>querySelectorAll\<close> lists the descendants of a node that match, in document
  order.
\<close>

definition matches :: "world \<Rightarrow> node \<Rightarrow> bool" where
  "matches w e =
     (attributes (nodes w e) ''data-jazzy-scroll'' \<noteq> None \<and>
      ''animated-in'' \<notin> set (classList (nodes w e)))"

definition querySelectorAll :: "world \<Rightarrow> dnode \<Rightarrow> node list" where
  "querySelectorAll w n = filter (matches w) (descendants n)"

lemma matches_addElement [simp]: "matches (addElement e w) x = matches w x"
  by (simp add: matches_def addElement_def addElementObserver_def addElementPolling_def Let_def)

lemma querySelectorAll_addElement [simp]:
  "querySelectorAll (addElement e w) n = querySelectorAll w n"
proof -
  have "matches (addElement e w) = matches w"
    by (rule ext) simp
  then show ?thesis
    by (simp add: querySelectorAll_def)
qed

text \<open>
  The loop over \<open>y\<close> of lines 206-208, which runs the query again at each test and at
  each read.
\<close>

function addDescendants :: "dnode \<Rightarrow> nat \<Rightarrow> world \<Rightarrow> world" where
  "addDescendants n y w =
     (if y < length (querySelectorAll w n)
      then addDescendants n (Suc y) (addElement (querySelectorAll w n ! y) w)
      else w)"
  by pat_completeness auto
termination
  by (relation "measure (\<lambda>(n, y, w). length (querySelectorAll w n) - y)") auto

declare addDescendants.simps [simp del]

text \<open>The body of the loop over \<open>x\<close>, for one added node.\<close>

fun addedNode :: "dnode \<Rightarrow> world \<Rightarrow> world" where
  "addedNode OtherNode w = w"
| "addedNode (ElementNode e cs) w =
     addDescendants (ElementNode e cs) 0
       (if matches w e then addElement e w else w)"

record mutation_record =
  addedNodes :: "dnode list"

definition mutationCallback :: "mutation_record list \<Rightarrow> world \<Rightarrow> world" where
  "mutationCallback mutationsList w =
     fold (\<lambda>m. fold addedNode (addedNodes m)) mutationsList w"

subsection \<open>The constructor (lines 17-216)\<close>

text \<open>
  The settings are the three fields the constructor reads, each an integer or not given
  (a speed or a delay given as a string, which the constructor also takes, is not
  modelled).
  The environment is what the constructor finds: whether \<open>window.orientation\<close> is
  defined, whether IntersectionObserver is supported (line 1), \<open>window.innerHeight\<close>,
  the document and its elements.
\<close>

record settings =
  settingsSpeed :: "int option"
  settingsDelay :: "int option"
  settingsOffset :: "int option"

record env =
  hasOrientation :: bool
  hasIntersectionObserver :: bool
  innerHeight :: int
  document :: dnode
  page :: "node \<Rightarrow> element"

text \<open>\<open>settings.field || default\<close>.\<close>

definition orDefault :: "int option \<Rightarrow> int \<Rightarrow> int" where
  "orDefault field d =
     (case js_or (case field of None \<Rightarrow> Undefined | Some n \<Rightarrow> Num n) (Num d) of
        Num n \<Rightarrow> n
      | _ \<Rightarrow> d)"

definition emptyOptions :: options_obj where
  "emptyOptions = \<lparr>rootMargin = [], threshold = []\<rparr>"

text \<open>
  The state after lines 17-57: the three settings merged with the defaults, the offset
  forced to zero where \<open>window.orientation\<close> is defined; nothing registered yet.
\<close>

definition engine :: "settings \<Rightarrow> env \<Rightarrow> world" where
  "engine st ev =
     \<lparr>nodes = page ev,
      speed = orDefault (settingsSpeed st) 500,
      delay = orDefault (settingsDelay st) 0,
      offset = (if hasOrientation ev then 0 else orDefault (settingsOffset st) 0),
      supportsIntersectionObserver = hasIntersectionObserver ev,
      thisOptions = 0,
      heap = (\<lambda>_. emptyOptions),
      intersectionObservers = [],
      viewportBottom = innerHeight ev,
      jazzyElements = [],
      ramps = [],
      rafQueue = [],
      animateInCalls = [],
      isInViewportCalls = []\<rparr>"

text \<open>
  \<open>_jazzyElements\<close> (line 19) and the rest of the constructor: with
  IntersectionObserver the options object is made and every element found is added;
  without it every element found is added and the first frame is asked for.
\<close>

definition documentElements :: "world \<Rightarrow> dnode \<Rightarrow> node list" where
  "documentElements w doc = filter (matches w) (elementsOf doc)"

definition JazzyScroll :: "settings \<Rightarrow> env \<Rightarrow> world" where
  "JazzyScroll st ev =
     (let w = engine st ev;
          jazzyElements0 = documentElements w (document ev)
      in if supportsIntersectionObserver w
         then fold addElement jazzyElements0
                (w\<lparr>heap := (heap w)(thisOptions w :=
                      \<lparr>rootMargin = ''0px 0px '' @ intToString (offset w * (- 1)) @ ''px 0px'',
                       threshold = [0, 1]\<rparr>)\<rparr>)
         else requestAnimationFrame InitCallback (fold addElement jazzyElements0 w))"

text \<open>
  The MutationObserver of line 214 is the host calling \<open>mutationCallback\<close> with each
  batch of records. \<open>tracked\<close> lists what the chosen variant currently follows: the
  targets of the observers, or \<open>this.jazzyElements\<close>.
\<close>

definition tracked :: "world \<Rightarrow> node list" where
  "tracked w =
     (if supportsIntersectionObserver w then concat (map targets (intersectionObservers w))
      else jazzyElements w)"

text \<open>
  \<open>hasTag\<close>: the element carries the attribute \<open>data-jazzy-scroll\<close>, as every
  element had when the selector found it.
\<close>

definition hasTag :: "world \<Rightarrow> node \<Rightarrow> bool" where
  "hasTag w e = (attributes (nodes w e) ''data-jazzy-scroll'' \<noteq> None)"

subsection \<open>The page's script (assets/js/script.js)\<close>

text \<open>
  The engine is made only when the user does not prefer reduced motion, with the speed
  800, the delay 0 and the offset 0.
\<close>

definition script :: "bool \<Rightarrow> env \<Rightarrow> world option" where
  "script isMotionAllowed ev =
     (if isMotionAllowed
      then Some (JazzyScroll \<lparr>settingsSpeed = Some 800, settingsDelay = Some 0,
                              settingsOffset = Some 0\<rparr> ev)
      else None)"

section \<open>Example pages\<close>

text \<open>
  Pages, settings and states on which the properties below are tried. \<open>mobilePage\<close>
  is read on a device with an orientation and with IntersectionObserver;
  \<open>scrollPage\<close> without either, in a viewport 800 high: element 11 is in view,
  element 12 sits exactly on the boundary, element 13 is far below. \<open>observerWorld\<close>
  is the engine made before the elements of \<open>mobilePage\<close> are in the document.
  \<open>upRamp\<close> counts from 0 to 100 in 800 ms, \<open>backRamp\<close> is the same call with the
  duration \<open>-800\<close>, and \<open>wideRamp\<close>, first called back at 1000, counts from
  \<open>-2\<close> to \<open>2^53 - 1\<close>.
\<close>

definition blankElement :: element where
  "blankElement =
     \<lparr>attributes = Map.empty, classList = [], textContent = [], boundingTop = 0,
      jazzySpeed = None, jazzyDelay = None, jazzyOffset = None, options = None,
      transitionDuration = None, transitionDelay = None\<rparr>"

definition mobilePage :: "node \<Rightarrow> element" where
  "mobilePage =
     (\<lambda>_. blankElement)
       (21 := blankElement\<lparr>attributes :=
               [''data-jazzy-scroll'' \<mapsto> ''fade'', ''data-jazzy-scroll-offset'' \<mapsto> ''30'']\<rparr>,
        22 := blankElement\<lparr>attributes := [''data-jazzy-scroll'' \<mapsto> ''fade'']\<rparr>)"

definition mobileEnv :: env where
  "mobileEnv =
     \<lparr>hasOrientation = True, hasIntersectionObserver = True, innerHeight = 800,
      document = ElementNode 20 [ElementNode 21 [], ElementNode 22 []], page = mobilePage\<rparr>"

definition offset50 :: settings where
  "offset50 = \<lparr>settingsSpeed = None, settingsDelay = None, settingsOffset = Some 50\<rparr>"

definition scrollPage :: "node \<Rightarrow> element" where
  "scrollPage =
     (\<lambda>_. blankElement)
       (11 := blankElement\<lparr>attributes := [''data-jazzy-scroll'' \<mapsto> ''fade''],
                           boundingTop := 100\<rparr>,
        12 := blankElement\<lparr>attributes := [''data-jazzy-scroll'' \<mapsto> ''jazzy-count'',
                                           ''data-jazzy-scroll-speed'' \<mapsto> ''1000''],
                           textContent := ''42'', boundingTop := 800\<rparr>,
        13 := blankElement\<lparr>attributes := [''data-jazzy-scroll'' \<mapsto> ''count'',
                                           ''data-jazzy-scroll-count-end'' \<mapsto> ''soon''],
                           textContent := ''7'', boundingTop := 2000\<rparr>)"

definition pollingEnv :: env where
  "pollingEnv =
     \<lparr>hasOrientation = False, hasIntersectionObserver = False, innerHeight = 800,
      document = ElementNode 10 [ElementNode 11 [], ElementNode 12 [], ElementNode 13 []],
      page = scrollPage\<rparr>"

definition noSettings :: settings where
  "noSettings = \<lparr>settingsSpeed = None, settingsDelay = None, settingsOffset = None\<rparr>"

definition scrollWorld :: world where
  "scrollWorld = JazzyScroll noSettings pollingEnv"



definition observerWorld :: world where
  "observerWorld = JazzyScroll offset50 (mobileEnv\<lparr>document := OtherNode\<rparr>)"


definition movedWorld :: world where
  "movedWorld = mutationCallback [\<lparr>addedNodes = [ElementNode 11 []]\<rparr>] scrollWorld"

definition movedObserverWorld :: world where
  "movedObserverWorld =
     mutationCallback [\<lparr>addedNodes = [ElementNode 21 []]\<rparr>] (JazzyScroll offset50 mobileEnv)"

definition entry21 :: entry where
  "entry21 = \<lparr>isIntersecting = True, boundingClientRectTop = 100, target = 21\<rparr>"

definition upRamp :: ramp where
  "upRamp = \<lparr>rampElement = 12, rampStart = Fin 0, rampEnd = Fin 100,
              rampDuration = Fin 800, startTimestamp = None\<rparr>"

definition backRamp :: ramp where
  "backRamp = \<lparr>rampElement = 12, rampStart = Fin 0, rampEnd = Fin 100,
                rampDuration = Fin (- 800), startTimestamp = None\<rparr>"

definition wideRamp :: ramp where
  "wideRamp = \<lparr>rampElement = 12, rampStart = Fin (- 2), rampEnd = Fin 9007199254740991,
                rampDuration = Fin 800, startTimestamp = Some 1000\<rparr>"

section \<open>Rounding to binary64\<close>

lemma pow2_powi: "pow2 k = 2 powi k"
  by (simp add: pow2_def power_int_def field_simps)

lemma pow2_pos [simp]: "0 < pow2 k"
  by (simp add: pow2_powi)

lemma pow2_nonneg [simp]: "0 \<le> pow2 k"
  by (simp add: pow2_powi)

lemma pow2_neq0 [simp]: "pow2 k \<noteq> 0"
  by (simp add: pow2_powi)

lemma pow2_52: "pow2 52 = of_int (2 ^ 52)" and pow2_53: "pow2 53 = of_int (2 ^ 53)"
  by (simp_all add: pow2_def)

lemma pow2_add: "pow2 (a + b) = pow2 a * pow2 b"
  by (simp add: pow2_powi power_int_add)

lemma pow2_diff: "pow2 (a - b) = pow2 a / pow2 b"
  by (simp add: pow2_powi power_int_diff)

lemma pow2_mono: "a \<le> b \<Longrightarrow> pow2 a \<le> pow2 b"
  by (simp add: pow2_powi power_int_increasing)

lemma pow2_strict_mono: "a < b \<Longrightarrow> pow2 a < pow2 b"
  by (simp add: pow2_powi power_int_strict_increasing)

lemma pow2_less_cancel: "pow2 a < pow2 b \<Longrightarrow> a < b"
  using pow2_mono [of b a] by (cases "a < b") auto

lemma pow2_nat: "0 \<le> k \<Longrightarrow> pow2 k = of_int (2 ^ nat k)"
  by (simp add: pow2_def)

lemma pow2_0 [simp]: "pow2 0 = 1"
  by (simp add: pow2_def)

lemma roundHalfEven_of_int [simp]: "roundHalfEven (of_int k) = k"
  by (simp add: roundHalfEven_def)

lemma roundHalfEven_cases:
  "roundHalfEven x = \<lfloor>x\<rfloor> \<or> roundHalfEven x = \<lfloor>x\<rfloor> + 1"
  by (simp add: roundHalfEven_def Let_def)

lemma roundHalfEven_ge: "of_int k \<le> x \<Longrightarrow> k \<le> roundHalfEven x"
  using roundHalfEven_cases [of x] le_floor_iff [of k x] by auto

lemma roundHalfEven_le: "x \<le> of_int k \<Longrightarrow> roundHalfEven x \<le> k"
proof -
  assume le: "x \<le> of_int k"
  show ?thesis
  proof (cases "x = of_int k")
    case True
    then show ?thesis by simp
  next
    case False
    with le have "x < of_int k" by simp
    then have "\<lfloor>x\<rfloor> < k" by (simp add: floor_less_iff)
    with roundHalfEven_cases [of x] show ?thesis by auto
  qed
qed

lemma roundHalfEven_mono: "x \<le> y \<Longrightarrow> roundHalfEven x \<le> roundHalfEven y"
proof -
  assume le: "x \<le> y"
  then have f: "\<lfloor>x\<rfloor> \<le> \<lfloor>y\<rfloor>" by (rule floor_mono)
  show ?thesis
  proof (cases "\<lfloor>x\<rfloor> = \<lfloor>y\<rfloor>")
    case True
    with le show ?thesis
      by (auto simp: roundHalfEven_def Let_def)
  next
    case False
    with f have "\<lfloor>x\<rfloor> + 1 \<le> \<lfloor>y\<rfloor>" by simp
    moreover have "roundHalfEven x \<le> \<lfloor>x\<rfloor> + 1"
      using roundHalfEven_cases [of x] by auto
    moreover have "\<lfloor>y\<rfloor> \<le> roundHalfEven y"
      using roundHalfEven_cases [of y] by auto
    ultimately show ?thesis by linarith
  qed
qed

lemma bitLength_bounds:
  "0 < n \<Longrightarrow> 2 ^ (bitLength n - 1) \<le> n \<and> n < 2 ^ bitLength n"
proof (induction n rule: bitLength.induct)
  case (1 n)
  show ?case
  proof (cases "n = 1")
    case True
    then show ?thesis
      by (simp add: bitLength.simps [of 1] bitLength.simps [of 0])
  next
    case False
    with "1.prems" have m: "0 < n div 2" by simp
    from "1.prems" have b: "bitLength n = Suc (bitLength (n div 2))"
      by (subst bitLength.simps) simp
    from m have bm: "bitLength (n div 2) = Suc (bitLength (n div 2 div 2))"
      by (subst bitLength.simps) simp
    from "1.IH" m "1.prems" have ih: "2 ^ (bitLength (n div 2) - 1) \<le> n div 2"
      "n div 2 < 2 ^ bitLength (n div 2)"
      by auto
    have "(2::int) ^ bitLength (n div 2) = 2 * 2 ^ (bitLength (n div 2) - 1)"
      by (simp add: bm)
    with ih(1) have lo: "2 ^ bitLength (n div 2) \<le> n"
      by linarith
    from ih(2) have "n < 2 * 2 ^ bitLength (n div 2)"
      by linarith
    with lo show ?thesis
      by (simp add: b)
  qed
qed


lemma exponentOf_bounds:
  assumes "0 < a"
  shows "pow2 (exponentOf a) \<le> a \<and> a < pow2 (exponentOf a + 1)"
proof -
  obtain p q where pq: "quotient_of a = (p, q)"
    by (cases "quotient_of a")
  then have q: "0 < q" and a: "a = of_int p / of_int q"
    by (simp_all add: quotient_of_denom_pos quotient_of_div)
  with assms have p: "0 < p"
    by (simp add: zero_less_divide_iff)
  define bp bq where "bp = bitLength p" and "bq = bitLength q"
  define k where "k = int bp - int bq"
  from bitLength_bounds [OF p] bitLength_bounds [OF q]
  have bp: "2 ^ (bp - 1) \<le> p" "p < 2 ^ bp" and bq: "2 ^ (bq - 1) \<le> q" "q < 2 ^ bq"
    by (simp_all add: bp_def bq_def)
  have pos: "0 < bp" "0 < bq"
    using p q by (simp_all add: bp_def bq_def bitLength.simps [of p] bitLength.simps [of q])
  have P: "pow2 (int bp) = 2 ^ bp" "pow2 (int bq) = 2 ^ bq"
    by (simp_all add: pow2_def)
  have P1: "pow2 (int bp - 1) = 2 ^ (bp - 1)" "pow2 (int bq - 1) = 2 ^ (bq - 1)"
    using pos by (simp_all add: pow2_def nat_diff_distrib)
  have rp: "(2::rat) ^ (bp - 1) \<le> of_int p" "of_int p < (2::rat) ^ bp"
    using bp by (metis of_int_le_iff of_int_numeral of_int_power, metis of_int_less_iff of_int_numeral of_int_power)
  have rq: "(2::rat) ^ (bq - 1) \<le> of_int q" "of_int q < (2::rat) ^ bq"
    using bq by (metis of_int_le_iff of_int_numeral of_int_power, metis of_int_less_iff of_int_numeral of_int_power)
  have qpos: "(0::rat) < of_int q"
    using q by simp
  have "a < 2 ^ bp / of_int q"
    unfolding a using rp(2) qpos by (simp add: divide_strict_right_mono)
  also have "\<dots> \<le> 2 ^ bp / 2 ^ (bq - 1)"
    using rq(1) by (simp add: frac_le)
  also have "\<dots> = pow2 (k + 1)"
    using P P1 pow2_diff [of "int bp" "int bq - 1"] by (simp add: k_def algebra_simps)
  finally have up: "a < pow2 (k + 1)" .
  have "pow2 (k - 1) = 2 ^ (bp - 1) / 2 ^ bq"
    using P P1 pow2_diff [of "int bp - 1" "int bq"] by (simp add: k_def algebra_simps)
  also have "\<dots> \<le> of_int p / 2 ^ bq"
    using rp(1) by (simp add: divide_right_mono)
  also have "\<dots> \<le> of_int p / of_int q"
    using rq(2) qpos p by (simp add: frac_le)
  finally have lo: "pow2 (k - 1) \<le> a"
    by (simp add: a)
  have e: "exponentOf a = (if pow2 k \<le> a then k else k - 1)"
    by (simp add: exponentOf_def pq k_def bp_def bq_def)
  show ?thesis
  proof (cases "pow2 k \<le> a")
    case True
    with e up show ?thesis by simp
  next
    case False
    with e lo show ?thesis by simp
  qed
qed

lemma exponentOf_unique:
  assumes "0 < a" "pow2 e \<le> a" "a < pow2 (e + 1)"
  shows "exponentOf a = e"
proof -
  from exponentOf_bounds [OF assms(1)] assms(2,3)
  have "pow2 (exponentOf a) < pow2 (e + 1)" "pow2 e < pow2 (exponentOf a + 1)"
    by auto
  then have "exponentOf a < e + 1" "e < exponentOf a + 1"
    by (auto dest: pow2_less_cancel)
  then show ?thesis by simp
qed

lemma exponentOf_mono:
  assumes "0 < a" "a \<le> b"
  shows "exponentOf a \<le> exponentOf b"
proof -
  from assms have "0 < b" by simp
  from exponentOf_bounds [OF assms(1)] exponentOf_bounds [OF this] assms(2)
  have "pow2 (exponentOf a) < pow2 (exponentOf b + 1)"
    by auto
  then show ?thesis
    by (auto dest: pow2_less_cancel)
qed


lemma roundMagnitude_nonneg: "0 < a \<Longrightarrow> 0 \<le> roundMagnitude a"
proof -
  assume "0 < a"
  then have "of_int 0 \<le> a / pow2 (max (exponentOf a) (- 1022) - 52)"
    by simp
  then have "0 \<le> roundHalfEven (a / pow2 (max (exponentOf a) (- 1022) - 52))"
    by (rule roundHalfEven_ge)
  then show ?thesis
    by (simp add: roundMagnitude_def Let_def)
qed

lemma roundMagnitude_mono:
  assumes "0 < a" "a \<le> b"
  shows "roundMagnitude a \<le> roundMagnitude b"
proof -
  define ea eb where "ea = max (exponentOf a) (- 1022)" and "eb = max (exponentOf b) (- 1022)"
  have b: "0 < b" using assms by simp
  have le: "ea \<le> eb"
    using exponentOf_mono [OF assms] by (simp add: ea_def eb_def)
  have ra: "roundMagnitude a = of_int (roundHalfEven (a / pow2 (ea - 52))) * pow2 (ea - 52)"
    and rb: "roundMagnitude b = of_int (roundHalfEven (b / pow2 (eb - 52))) * pow2 (eb - 52)"
    by (simp_all add: roundMagnitude_def Let_def ea_def eb_def)
  show ?thesis
  proof (cases "ea = eb")
    case True
    have "a / pow2 (eb - 52) \<le> b / pow2 (eb - 52)"
      using assms(2) by (simp add: divide_right_mono)
    then have "roundHalfEven (a / pow2 (eb - 52)) \<le> roundHalfEven (b / pow2 (eb - 52))"
      by (rule roundHalfEven_mono)
    then show ?thesis
      unfolding ra rb True by (simp add: mult_right_mono)
  next
    case False
    with le have lt: "ea < eb" by simp
    then have eb: "eb = exponentOf b"
      by (auto simp: ea_def eb_def max_def split: if_splits)
    have "pow2 eb \<le> b"
      using exponentOf_bounds [OF b] by (simp add: eb)
    then have "pow2 eb / pow2 (eb - 52) \<le> b / pow2 (eb - 52)"
      by (simp add: divide_right_mono)
    moreover have "pow2 eb / pow2 (eb - 52) = pow2 52"
      using pow2_diff [of eb "eb - 52"] by simp
    ultimately have "of_int (2 ^ 52) \<le> b / pow2 (eb - 52)"
      by (simp only: pow2_52)
    then have "2 ^ 52 \<le> roundHalfEven (b / pow2 (eb - 52))"
      by (rule roundHalfEven_ge)
    then have "(of_int (2 ^ 52) :: rat) \<le> of_int (roundHalfEven (b / pow2 (eb - 52)))"
      by (simp only: of_int_le_iff)
    then have "pow2 52 * pow2 (eb - 52) \<le> roundMagnitude b"
      unfolding rb pow2_52 by (rule mult_right_mono) simp
    moreover have "pow2 52 * pow2 (eb - 52) = pow2 eb"
      using pow2_add [of 52 "eb - 52"] by simp
    ultimately have lower: "pow2 eb \<le> roundMagnitude b"
      by simp
    have "a < pow2 (exponentOf a + 1)"
      using exponentOf_bounds [OF assms(1)] by simp
    also have "\<dots> \<le> pow2 (ea + 1)"
      by (intro pow2_mono) (simp add: ea_def)
    finally have "a / pow2 (ea - 52) \<le> pow2 (ea + 1) / pow2 (ea - 52)"
      by (simp add: divide_right_mono)
    moreover have "pow2 (ea + 1) / pow2 (ea - 52) = pow2 53"
      using pow2_diff [of "ea + 1" "ea - 52"] by simp
    ultimately have "a / pow2 (ea - 52) \<le> of_int (2 ^ 53)"
      by (simp only: pow2_53)
    then have "roundHalfEven (a / pow2 (ea - 52)) \<le> 2 ^ 53"
      by (rule roundHalfEven_le)
    then have "(of_int (roundHalfEven (a / pow2 (ea - 52))) :: rat) \<le> of_int (2 ^ 53)"
      by (simp only: of_int_le_iff)
    then have "roundMagnitude a \<le> pow2 53 * pow2 (ea - 52)"
      unfolding ra pow2_53 by (rule mult_right_mono) simp
    moreover have "pow2 53 * pow2 (ea - 52) = pow2 (ea + 1)"
      using pow2_add [of 53 "ea - 52"] by (simp add: add.commute)
    moreover have "pow2 (ea + 1) \<le> pow2 eb"
      using lt by (intro pow2_mono) simp
    ultimately show ?thesis
      using lower by linarith
  qed
qed

lemma roundMagnitude_exact:
  assumes "0 < m" "m < 2 ^ 53" "- 1074 \<le> j" "a = of_int m * pow2 j"
  shows "roundMagnitude a = a"
proof -
  have a: "0 < a"
    using assms(1,4) by simp
  define e where "e = max (exponentOf a) (- 1022)"
  have "(of_int m :: rat) < of_int (2 ^ 53)"
    using assms(2) by (simp only: of_int_less_iff)
  then have "a < pow2 53 * pow2 j"
    unfolding assms(4) pow2_53 by (rule mult_strict_right_mono) simp
  also have "\<dots> = pow2 (53 + j)"
    using pow2_add [of 53 j] by simp
  finally have "pow2 (exponentOf a) < pow2 (53 + j)"
    using exponentOf_bounds [OF a] by simp
  then have "exponentOf a < 53 + j"
    by (rule pow2_less_cancel)
  with assms(3) have le: "e - 52 \<le> j"
    by (simp add: e_def)
  define d where "d = nat (j - (e - 52))"
  have "pow2 j = pow2 (int d) * pow2 (e - 52)"
    using le pow2_add [of "int d" "e - 52"] by (simp add: d_def)
  moreover have "pow2 (int d) = of_int (2 ^ d)"
    by (simp add: pow2_def)
  ultimately have split: "a = of_int (m * 2 ^ d) * pow2 (e - 52)"
    by (simp add: assms(4))
  have "a / pow2 (e - 52) = of_int (m * 2 ^ d)"
    unfolding split by (simp only: nonzero_mult_div_cancel_right pow2_neq0 not_False_eq_True)
  then have "roundHalfEven (a / pow2 (e - 52)) = m * 2 ^ d"
    by (simp only: roundHalfEven_of_int)
  then have "roundMagnitude a = of_int (m * 2 ^ d) * pow2 (e - 52)"
    by (simp add: roundMagnitude_def Let_def e_def)
  with split show ?thesis
    by simp
qed


lemma toDouble_exact:
  assumes "\<bar>m\<bar> < 2 ^ 53" "- 1074 \<le> j" "x = of_int m * pow2 j" "\<bar>x\<bar> < pow2 1024"
  shows "toDouble x = Fin x"
proof -
  consider "m = 0" | "0 < m" | "m < 0" by linarith
  then show ?thesis
  proof cases
    case 1
    then show ?thesis by (simp add: assms(3) toDouble_def)
  next
    case 2
    then have "0 < x" by (simp add: assms(3))
    moreover have "roundMagnitude x = x"
      using 2 assms(1,2,3) by (intro roundMagnitude_exact [of m j]) simp_all
    ultimately show ?thesis
      using assms(4) by (simp add: toDouble_def)
  next
    case 3
    then have neg: "x < 0" by (simp add: assms(3) mult_neg_pos)
    have "roundMagnitude (- x) = - x"
      using 3 assms(1,2,3) by (intro roundMagnitude_exact [of "- m" j]) simp_all
    with neg show ?thesis
      using assms(4) by (simp add: toDouble_def)
  qed
qed

lemma toDouble_of_int:
  assumes "\<bar>n\<bar> \<le> 2 ^ 53"
  shows "toDouble (of_int n) = Fin (of_int n)"
proof -
  have big: "pow2 53 < pow2 1024"
    by (rule pow2_strict_mono) simp
  consider "\<bar>n\<bar> < 2 ^ 53" | "n = 2 ^ 53" | "n = - (2 ^ 53)"
    using assms by linarith
  then show ?thesis
  proof cases
    case 1
    then have "\<bar>(of_int n :: rat)\<bar> < of_int (2 ^ 53)"
      by (simp only: of_int_abs [symmetric] of_int_less_iff)
    then have "\<bar>(of_int n :: rat)\<bar> < pow2 53"
      by (simp only: pow2_53)
    with big have "\<bar>(of_int n :: rat)\<bar> < pow2 1024"
      by (rule less_trans [rotated])
    with 1 show ?thesis
      by (intro toDouble_exact [of n 0]) simp_all
  next
    case 2
    then have x: "(of_int n :: rat) = of_int 1 * pow2 53"
      by (simp add: pow2_53)
    show ?thesis
      using big by (intro toDouble_exact [of 1 53]) (simp_all add: x)
  next
    case 3
    then have x: "(of_int n :: rat) = of_int (- 1) * pow2 53"
      by (simp add: pow2_53)
    show ?thesis
      using big by (intro toDouble_exact [of "- 1" 53]) (simp_all add: x)
  qed
qed

lemma toDouble_mono:
  assumes "x \<le> y"
  shows "js_le (toDouble x) (toDouble y)"
proof -
  consider "0 < x" | "x = 0" | "x < 0 \<and> y < 0" | "x < 0 \<and> 0 \<le> y"
    by linarith
  then show ?thesis
  proof cases
    case 1
    with assms have y: "0 < y" by simp
    from roundMagnitude_mono [OF 1 assms] 1 y show ?thesis
      by (auto simp: toDouble_def)
  next
    case 2
    with assms have "y = 0 \<or> 0 < y" by auto
    with 2 roundMagnitude_nonneg [of y] show ?thesis
      by (auto simp: toDouble_def)
  next
    case 3
    then have "0 < - y" "- y \<le> - x"
      using assms by simp_all
    from roundMagnitude_mono [OF this] 3 show ?thesis
      by (auto simp: toDouble_def)
  next
    case 4
    then have "y = 0 \<or> 0 < y" by auto
    with 4 roundMagnitude_nonneg [of "- x"] roundMagnitude_nonneg [of y] show ?thesis
      by (auto simp: toDouble_def)
  qed
qed

lemma toDouble_bounded:
  assumes "- B \<le> x" "x \<le> B" "toDouble B = Fin B" "toDouble (- B) = Fin (- B)"
  shows "\<exists>r. toDouble x = Fin r \<and> - B \<le> r \<and> r \<le> B"
proof -
  from toDouble_mono [OF assms(1)] toDouble_mono [OF assms(2)]
  have "js_le (Fin (- B)) (toDouble x)" "js_le (toDouble x) (Fin B)"
    by (simp_all add: assms(3,4))
  then show ?thesis
    by (cases "toDouble x") simp_all
qed

lemma roundHalfEven_near:
  assumes "of_int k - 1 / 2 < x" "x < of_int k + 1 / 2"
  shows "roundHalfEven x = k"
proof (cases "of_int k \<le> x")
  case True
  then have "\<lfloor>x\<rfloor> = k" using assms by (intro floor_unique) auto
  then show ?thesis using assms by (simp add: roundHalfEven_def Let_def)
next
  case False
  then have "\<lfloor>x\<rfloor> = k - 1" using assms by (intro floor_unique) auto
  then show ?thesis using assms False by (simp add: roundHalfEven_def Let_def)
qed

lemma roundHalfEven_tie:
  assumes "x = of_int k + 1 / 2"
  shows "roundHalfEven x = (if even k then k else k + 1)"
proof -
  have "\<lfloor>x\<rfloor> = k" using assms by (intro floor_unique) auto
  then show ?thesis using assms by (simp add: roundHalfEven_def Let_def)
qed

lemma roundMagnitude_at:
  assumes "0 < a" "pow2 e \<le> a" "a < pow2 (e + 1)" "- 1022 \<le> e"
  shows "roundMagnitude a = of_int (roundHalfEven (a / pow2 (e - 52))) * pow2 (e - 52)"
  using exponentOf_unique [OF assms(1,2,3)] assms(4) by (simp add: roundMagnitude_def Let_def)

lemma toDouble_at:
  assumes "0 < a" "pow2 e \<le> a" "a < pow2 (e + 1)" "- 1022 \<le> e"
    and "roundHalfEven (a / pow2 (e - 52)) = k" "of_int k * pow2 (e - 52) = m" "m < pow2 1024"
  shows "toDouble a = Fin m"
  using roundMagnitude_at [OF assms(1-4)] assms(1,5,6,7) by (simp add: toDouble_def)

section \<open>Numbers as text are told apart\<close>

lemma natToString_nonempty: "natToString n \<noteq> []"
  by (subst natToString.simps) simp

lemma natToString_digits: "set (natToString n) \<subseteq> set ''0123456789''"
proof (induction n rule: natToString.induct)
  case (1 n)
  show ?case
  proof (cases "n < 10")
    case True
    then have "''0123456789'' ! n \<in> set ''0123456789''"
      by (intro nth_mem) simp
    with True show ?thesis
      by (subst natToString.simps) simp
  next
    case False
    have "''0123456789'' ! (n mod 10) \<in> set ''0123456789''"
      by (intro nth_mem) simp
    with False 1 show ?thesis
      by (subst natToString.simps) simp
  qed
qed

lemma digit_inj:
  assumes "a < 10" "b < 10" "''0123456789'' ! a = ''0123456789'' ! b"
  shows "a = b"
proof -
  have "distinct ''0123456789''"
    by simp
  moreover have "a < length ''0123456789''" "b < length ''0123456789''"
    using assms by simp_all
  ultimately show ?thesis
    using assms(3) nth_eq_iff_index_eq by blast
qed

lemma natToString_inj: "natToString n = natToString m \<Longrightarrow> n = m"
proof (induction n arbitrary: m rule: natToString.induct)
  case (1 n)
  have n: "natToString n = (if n < 10 then [''0123456789'' ! n]
      else natToString (n div 10) @ [''0123456789'' ! (n mod 10)])"
    by (subst natToString.simps) simp
  have m: "natToString m = (if m < 10 then [''0123456789'' ! m]
      else natToString (m div 10) @ [''0123456789'' ! (m mod 10)])"
    by (subst natToString.simps) simp
  show ?case
  proof (cases "n < 10")
    case True
    show ?thesis
    proof (cases "m < 10")
      case m10: True
      with True n m "1.prems" show ?thesis
        by (auto intro: digit_inj)
    next
      case False
      with True n m "1.prems" natToString_nonempty [of "m div 10"] show ?thesis
        by (cases "natToString (m div 10)") auto
    qed
  next
    case False
    show ?thesis
    proof (cases "m < 10")
      case True
      with False n m "1.prems" natToString_nonempty [of "n div 10"] show ?thesis
        by (cases "natToString (n div 10)") auto
    next
      case m10: False
      with False n m "1.prems" have eq: "natToString (n div 10) = natToString (m div 10)"
        and d: "''0123456789'' ! (n mod 10) = ''0123456789'' ! (m mod 10)"
        by auto
      from "1.IH" [OF False eq] have "n div 10 = m div 10" .
      moreover have "n mod 10 = m mod 10"
        using d by (intro digit_inj) simp_all
      ultimately show ?thesis
        by (metis div_mult_mod_eq)
    qed
  qed
qed

lemma intToString_inj: "intToString i = intToString j \<Longrightarrow> i = j"
proof -
  assume eq: "intToString i = intToString j"
  have nd: "CHR ''-'' \<notin> set (natToString n)" for n
    using natToString_digits [of n] by auto
  have hd: "natToString n \<noteq> CHR ''-'' # cs" for n cs
    using nd [of n] by auto
  show ?thesis
  proof (cases "i < 0")
    case True
    show ?thesis
    proof (cases "j < 0")
      case j: True
      with True eq have "nat (- i) = nat (- j)"
        by (auto simp: intToString_def dest: natToString_inj)
      with True j show ?thesis by simp
    next
      case False
      with True eq have "natToString (nat j) = CHR ''-'' # natToString (nat (- i))"
        by (simp add: intToString_def)
      with hd [of "nat j"] show ?thesis
        by blast
    qed
  next
    case False
    show ?thesis
    proof (cases "j < 0")
      case True
      with False eq have "natToString (nat i) = CHR ''-'' # natToString (nat (- j))"
        by (simp add: intToString_def)
      with hd [of "nat i"] show ?thesis
        by blast
    next
      case j: False
      with False eq have "nat i = nat j"
        by (auto simp: intToString_def dest: natToString_inj)
      with False j show ?thesis by simp
    qed
  qed
qed

lemma intToString_not_NaN: "intToString i \<noteq> ''NaN''"
proof -
  have nd: "CHR ''N'' \<notin> set (natToString n)" for n
    using natToString_digits [of n] by auto
  show ?thesis
  proof (cases "i < 0")
    case True
    then show ?thesis by (simp add: intToString_def)
  next
    case False
    then show ?thesis
      using nd [of "nat i"] by (auto simp: intToString_def)
  qed
qed

lemma parseInt_cases: "parseInt v = NaN \<or> (\<exists>i. parseInt v = Fin i)"
  by (auto simp: parseInt_def parseIntString_def stripPrefix_def parseDigits_def Let_def
      split: list.splits)

lemma marginOf_inj:
  assumes "marginOf (parseInt u) = marginOf (parseInt v)"
  shows "parseInt u = parseInt v"
proof -
  from assms have eq: "numberToString (js_mul (parseInt u) (Fin (- 1))) =
      numberToString (js_mul (parseInt v) (Fin (- 1)))"
    by (simp add: marginOf_def)
  from parseInt_cases [of u] parseInt_cases [of v] show ?thesis
  proof (elim disjE exE)
    fix i j assume "parseInt u = Fin i" "parseInt v = Fin j"
    with eq show ?thesis by (auto dest: intToString_inj)
  next
    fix i assume "parseInt u = NaN" "parseInt v = Fin i"
    with eq intToString_not_NaN [of "- i"] show ?thesis by simp
  next
    fix i assume "parseInt u = Fin i" "parseInt v = NaN"
    with eq intToString_not_NaN [of "- i"] show ?thesis by simp
  qed simp
qed

section \<open>Registration\<close>

lemma parseInt_zero: "parseInt (Num 0) = Fin 0"
  by code_simp

lemma addElement_engine [simp]:
  "speed (addElement e w) = speed w"
  "delay (addElement e w) = delay w"
  "offset (addElement e w) = offset w"
  "supportsIntersectionObserver (addElement e w) = supportsIntersectionObserver w"
  "thisOptions (addElement e w) = thisOptions w"
  "viewportBottom (addElement e w) = viewportBottom w"
  by (simp_all add: addElement_def addElementObserver_def addElementPolling_def Let_def)

lemma fold_addElement_engine [simp]:
  "speed (fold addElement xs w) = speed w"
  "delay (fold addElement xs w) = delay w"
  "offset (fold addElement xs w) = offset w"
  "supportsIntersectionObserver (fold addElement xs w) = supportsIntersectionObserver w"
  "thisOptions (fold addElement xs w) = thisOptions w"
  "viewportBottom (fold addElement xs w) = viewportBottom w"
  by (induction xs arbitrary: w; simp)+

lemma addElement_attributes [simp]:
  "attributes (nodes (addElement e w) x) = attributes (nodes w x)"
  by (simp add: addElement_def addElementObserver_def addElementPolling_def Let_def)

lemma addElement_resolveOffset [simp]:
  "resolveOffset (addElement e w) (nodes (addElement e w) x) = resolveOffset w (nodes w x)"
  by (simp add: resolveOffset_def getAttribute_def)

lemma addElement_jazzyOffset:
  "jazzyOffset (nodes (addElement e w) x) =
     (if x = e then Some (resolveOffset w (nodes w e)) else jazzyOffset (nodes w x))"
  by (simp add: addElement_def addElementObserver_def addElementPolling_def Let_def)

lemma fold_addElement_jazzyOffset_other:
  "x \<notin> set xs \<Longrightarrow> jazzyOffset (nodes (fold addElement xs w) x) = jazzyOffset (nodes w x)"
  by (induction xs arbitrary: w) (simp_all add: addElement_jazzyOffset)

lemma fold_addElement_jazzyOffset:
  "x \<in> set xs \<Longrightarrow>
   jazzyOffset (nodes (fold addElement xs w) x) = Some (resolveOffset w (nodes w x))"
proof (induction xs arbitrary: w)
  case Nil
  then show ?case by simp
next
  case (Cons a xs)
  show ?case
  proof (cases "x \<in> set xs")
    case True
    then show ?thesis using Cons.IH [of "addElement a w"] by simp
  next
    case False
    with Cons.prems have "x = a" by simp
    with False show ?thesis
      by (simp add: fold_addElement_jazzyOffset_other addElement_jazzyOffset)
  qed
qed

lemma JazzyScroll_engine:
  "speed (JazzyScroll st ev) = speed (engine st ev)"
  "delay (JazzyScroll st ev) = delay (engine st ev)"
  "offset (JazzyScroll st ev) = offset (engine st ev)"
  by (simp_all add: JazzyScroll_def Let_def requestAnimationFrame_def)

lemma JazzyScroll_jazzyOffset:
  assumes "e \<in> set (documentElements (engine st ev) (document ev))"
  shows "jazzyOffset (nodes (JazzyScroll st ev) e) =
           Some (resolveOffset (engine st ev) (page ev e))"
proof -
  have "nodes (engine st ev) e = page ev e"
    by (simp add: engine_def)
  with assms show ?thesis
    by (simp add: JazzyScroll_def Let_def requestAnimationFrame_def
        fold_addElement_jazzyOffset resolveOffset_def)
qed

lemma tracked_addElement [simp]: "tracked (addElement e w) = tracked w @ [e]"
  by (simp add: tracked_def addElement_def addElementObserver_def addElementPolling_def Let_def)

lemma tracked_fold_addElement [simp]: "tracked (fold addElement xs w) = tracked w @ xs"
  by (induction xs arbitrary: w) simp_all

lemma tracked_JazzyScroll:
  "tracked (JazzyScroll st ev) = documentElements (engine st ev) (document ev)"
proof -
  have "tracked (engine st ev) = []"
    by (simp add: tracked_def engine_def)
  moreover have "tracked (w\<lparr>heap := h\<rparr>) = tracked w" for w h
    by (simp add: tracked_def)
  moreover have "tracked (requestAnimationFrame cb w) = tracked w" for w cb
    by (simp add: tracked_def requestAnimationFrame_def)
  ultimately show ?thesis
    by (simp add: JazzyScroll_def Let_def)
qed

lemma addElement_node_frame [simp]:
  "boundingTop (nodes (addElement e w) x) = boundingTop (nodes w x)"
  "classList (nodes (addElement e w) x) = classList (nodes w x)"
  "textContent (nodes (addElement e w) x) = textContent (nodes w x)"
  by (simp_all add: addElement_def addElementObserver_def addElementPolling_def Let_def)

lemma fold_addElement_node_frame [simp]:
  "attributes (nodes (fold addElement xs w) x) = attributes (nodes w x)"
  "boundingTop (nodes (fold addElement xs w) x) = boundingTop (nodes w x)"
  "classList (nodes (fold addElement xs w) x) = classList (nodes w x)"
  "textContent (nodes (fold addElement xs w) x) = textContent (nodes w x)"
  by (induction xs arbitrary: w; simp)+

lemma addElement_calls [simp]:
  "animateInCalls (addElement e w) = animateInCalls w"
  "isInViewportCalls (addElement e w) = isInViewportCalls w"
  "ramps (addElement e w) = ramps w"
  "rafQueue (addElement e w) = rafQueue w"
  by (simp_all add: addElement_def addElementObserver_def addElementPolling_def Let_def)

lemma fold_addElement_calls [simp]:
  "animateInCalls (fold addElement xs w) = animateInCalls w"
  "isInViewportCalls (fold addElement xs w) = isInViewportCalls w"
  "ramps (fold addElement xs w) = ramps w"
  "rafQueue (fold addElement xs w) = rafQueue w"
  by (induction xs arbitrary: w; simp)+

lemma JazzyScroll_calls:
  "animateInCalls (JazzyScroll st ev) = []"
  "isInViewportCalls (JazzyScroll st ev) = []"
  "ramps (JazzyScroll st ev) = []"
  by (simp_all add: JazzyScroll_def Let_def requestAnimationFrame_def engine_def)

lemma JazzyScroll_node_frame:
  "attributes (nodes (JazzyScroll st ev) x) = attributes (page ev x)"
  "boundingTop (nodes (JazzyScroll st ev) x) = boundingTop (page ev x)"
  "classList (nodes (JazzyScroll st ev) x) = classList (page ev x)"
  "textContent (nodes (JazzyScroll st ev) x) = textContent (page ev x)"
  by (simp_all add: JazzyScroll_def Let_def requestAnimationFrame_def engine_def)

lemma JazzyScroll_polling:
  "\<not> hasIntersectionObserver ev \<Longrightarrow>
   jazzyElements (JazzyScroll st ev) = documentElements (engine st ev) (document ev)"
  "viewportBottom (JazzyScroll st ev) = innerHeight ev"
  "supportsIntersectionObserver (JazzyScroll st ev) = hasIntersectionObserver ev"
proof -
  have "supportsIntersectionObserver (JazzyScroll st ev) = hasIntersectionObserver ev"
    by (simp add: JazzyScroll_def Let_def requestAnimationFrame_def engine_def)
  then show "supportsIntersectionObserver (JazzyScroll st ev) = hasIntersectionObserver ev" .
  then show "\<not> hasIntersectionObserver ev \<Longrightarrow>
   jazzyElements (JazzyScroll st ev) = documentElements (engine st ev) (document ev)"
    using tracked_JazzyScroll [of st ev] by (simp add: tracked_def)
  show "viewportBottom (JazzyScroll st ev) = innerHeight ev"
    by (simp add: JazzyScroll_def Let_def requestAnimationFrame_def engine_def)
qed

lemma addElement_resolveSpeed [simp]:
  "resolveSpeed (addElement e w) (nodes (addElement e w) x) = resolveSpeed w (nodes w x)"
  by (simp add: resolveSpeed_def getAttribute_def)

lemma addElement_jazzySpeed:
  "jazzySpeed (nodes (addElement e w) x) =
     (if x = e then Some (resolveSpeed w (nodes w e)) else jazzySpeed (nodes w x))"
  by (simp add: addElement_def addElementObserver_def addElementPolling_def Let_def)

lemma fold_addElement_jazzySpeed_other:
  "x \<notin> set xs \<Longrightarrow> jazzySpeed (nodes (fold addElement xs w) x) = jazzySpeed (nodes w x)"
  by (induction xs arbitrary: w) (simp_all add: addElement_jazzySpeed)

lemma fold_addElement_jazzySpeed:
  "x \<in> set xs \<Longrightarrow>
   jazzySpeed (nodes (fold addElement xs w) x) = Some (resolveSpeed w (nodes w x))"
proof (induction xs arbitrary: w)
  case Nil
  then show ?case by simp
next
  case (Cons a xs)
  show ?case
  proof (cases "x \<in> set xs")
    case True
    then show ?thesis using Cons.IH [of "addElement a w"] by simp
  next
    case False
    with Cons.prems have "x = a" by simp
    with False show ?thesis
      by (simp add: fold_addElement_jazzySpeed_other addElement_jazzySpeed)
  qed
qed

lemma JazzyScroll_jazzySpeed:
  assumes "e \<in> set (documentElements (engine st ev) (document ev))"
  shows "jazzySpeed (nodes (JazzyScroll st ev) e) =
           Some (resolveSpeed (engine st ev) (page ev e))"
proof -
  have "nodes (engine st ev) e = page ev e"
    by (simp add: engine_def)
  with assms show ?thesis
    by (simp add: JazzyScroll_def Let_def requestAnimationFrame_def
        fold_addElement_jazzySpeed resolveSpeed_def)
qed

lemma addDescendants_fold:
  "addDescendants n y w = fold addElement (drop y (querySelectorAll w n)) w"
proof (induction n y w rule: addDescendants.induct)
  case (1 n y w)
  show ?case
  proof (cases "y < length (querySelectorAll w n)")
    case True
    then have "drop y (querySelectorAll w n) =
        querySelectorAll w n ! y # drop (Suc y) (querySelectorAll w n)"
      by (simp add: Cons_nth_drop_Suc)
    with True 1 show ?thesis
      by (subst addDescendants.simps) simp
  next
    case False
    then show ?thesis
      by (subst addDescendants.simps) simp
  qed
qed

lemma addedNode_fold:
  "addedNode n w = fold addElement (filter (matches w) (elementsOf n)) w"
proof (cases n)
  case (ElementNode e cs)
  have "querySelectorAll (addElement e w) n = querySelectorAll w n"
    by simp
  with ElementNode show ?thesis
    by (simp add: addDescendants_fold) (simp add: querySelectorAll_def)
next
  case OtherNode
  then show ?thesis by simp
qed

lemma mutationCallback_single:
  "mutationCallback [\<lparr>addedNodes = [n]\<rparr>] w =
     fold addElement (filter (matches w) (elementsOf n)) w"
  by (simp add: mutationCallback_def addedNode_fold)

lemma addElement_twice:
  assumes "supportsIntersectionObserver w"
  shows "options (nodes (addElement B (addElement A w)) A) = Some (thisOptions w) \<and>
         options (nodes (addElement B (addElement A w)) B) = Some (thisOptions w) \<and>
         rootMargin (heap (addElement B (addElement A w)) (thisOptions w)) =
           marginOf (resolveOffset w (nodes w B)) \<and>
         intersectionObservers (addElement B (addElement A w)) =
           intersectionObservers w @
             [\<lparr>observerRootMargin = marginOf (resolveOffset w (nodes w A)),
               observerThresholds = threshold (heap w (thisOptions w)), targets = [A]\<rparr>,
              \<lparr>observerRootMargin = marginOf (resolveOffset w (nodes w B)),
               observerThresholds = threshold (heap w (thisOptions w)), targets = [B]\<rparr>]"
proof -
  let ?w1 = "addElement A w"
  have s1: "supportsIntersectionObserver ?w1"
    using assms by simp
  have off: "resolveOffset ?w1 (nodes ?w1 B) = resolveOffset w (nodes w B)"
    by simp
  have w1: "?w1 = addElementObserver A w"
    using assms by (simp add: addElement_def)
  have w2: "addElement B ?w1 = addElementObserver B ?w1"
    using s1 by (simp add: addElement_def)
  have "thisOptions ?w1 = thisOptions w"
    by simp
  have h1: "rootMargin (heap ?w1 (thisOptions w)) = marginOf (resolveOffset w (nodes w A))"
    and t1: "threshold (heap ?w1 (thisOptions w)) = threshold (heap w (thisOptions w))"
    and o1: "intersectionObservers ?w1 = intersectionObservers w @
       [\<lparr>observerRootMargin = marginOf (resolveOffset w (nodes w A)),
         observerThresholds = threshold (heap w (thisOptions w)), targets = [A]\<rparr>]"
    and e1: "options (nodes ?w1 A) = Some (thisOptions w)"
    unfolding w1 by (simp_all add: addElementObserver_def Let_def)
  show ?thesis
    unfolding w2 using off h1 t1 o1 e1 \<open>thisOptions ?w1 = thisOptions w\<close>
    by (simp add: addElementObserver_def [of B] Let_def)
qed

section \<open>One pass of init\<close>

lemma animateIn_cases:
  "animateIn e w = Inl TypeError \<and> attributes (nodes w e) ''data-jazzy-scroll'' = None \<or>
   (\<exists>w'. animateIn e w = Inr w' \<and> attributes (nodes w e) ''data-jazzy-scroll'' \<noteq> None)"
  by (auto simp: animateIn_def Let_def split: option.splits)

lemma animateIn_frame:
  assumes "animateIn e w = Inr w'"
  shows "jazzyElements w' = jazzyElements w"
    and "viewportBottom w' = viewportBottom w"
    and "isInViewportCalls w' = isInViewportCalls w"
    and "animateInCalls w' = animateInCalls w @ [e]"
    and "attributes (nodes w' x) = attributes (nodes w x)"
    and "boundingTop (nodes w' x) = boundingTop (nodes w x)"
    and "jazzyOffset (nodes w' x) = jazzyOffset (nodes w x)"
  using assms
  by (auto simp: animateIn_def Let_def updateNode_def classList_add_def animateNumber_def
      requestAnimationFrame_def split: option.splits if_splits)

lemma animateIn_animated:
  assumes "animateIn e w = Inr w'"
  shows "(''animated-in'' \<in> set (classList (nodes w' x))) =
           (x = e \<or> ''animated-in'' \<in> set (classList (nodes w x)))"
  using assms
  by (auto simp: animateIn_def Let_def updateNode_def classList_add_def animateNumber_def
      requestAnimationFrame_def split: option.splits if_splits)

lemma animateIn_isInViewport:
  "animateIn e w = Inr w' \<Longrightarrow> isInViewport w' x = isInViewport w x"
  by (simp add: isInViewport_def animateIn_frame)

lemma animateIn_total:
  "attributes (nodes w e) ''data-jazzy-scroll'' \<noteq> None \<Longrightarrow> \<exists>w'. animateIn e w = Inr w'"
  using animateIn_cases [of e w] by auto

lemma splice1_append: "splice1 (length ys) (ys @ y # zs) = ys @ zs"
  by (simp add: splice1_def)

lemma initLoop_spec:
  assumes "jazzyElements w = ys @ zs"
    and "\<forall>x\<in>set ys. isInViewport w x \<longrightarrow> hasTag w x"
  shows "\<exists>w'. initLoop (length ys) w = Inr w' \<and>
           jazzyElements w' = filter (\<lambda>x. \<not> isInViewport w x) ys @ zs \<and>
           isInViewportCalls w' = isInViewportCalls w @ rev ys \<and>
           animateInCalls w' = animateInCalls w @ rev (filter (isInViewport w) ys) \<and>
           (\<forall>x. (''animated-in'' \<in> set (classList (nodes w' x))) =
                  (''animated-in'' \<in> set (classList (nodes w x)) \<or>
                   x \<in> set ys \<and> isInViewport w x))"
  using assms
proof (induction ys arbitrary: w zs rule: rev_induct)
  case Nil
  then show ?case by simp
next
  case (snoc y ys)
  let ?n = "length ys"
  let ?w1 = "w\<lparr>isInViewportCalls := isInViewportCalls w @ [y]\<rparr>"
  have len: "?n < length (jazzyElements w)" and nth: "jazzyElements w ! ?n = y"
    using snoc.prems(1) by simp_all
  have view1: "isInViewport ?w1 x = isInViewport w x" for x
    by (simp add: isInViewport_def)
  have tag1: "hasTag ?w1 x = hasTag w x" for x
    by (simp add: hasTag_def)
  show ?case
  proof (cases "isInViewport w y")
    case False
    have "jazzyElements ?w1 = ys @ (y # zs)"
      using snoc.prems(1) by simp
    moreover have "\<forall>x\<in>set ys. isInViewport ?w1 x \<longrightarrow> hasTag ?w1 x"
      using snoc.prems(2) by (simp add: view1 tag1)
    ultimately obtain w' where w': "initLoop ?n ?w1 = Inr w'"
      "jazzyElements w' = filter (\<lambda>x. \<not> isInViewport ?w1 x) ys @ (y # zs)"
      "isInViewportCalls w' = isInViewportCalls ?w1 @ rev ys"
      "animateInCalls w' = animateInCalls ?w1 @ rev (filter (isInViewport ?w1) ys)"
      "\<forall>x. (''animated-in'' \<in> set (classList (nodes w' x))) =
             (''animated-in'' \<in> set (classList (nodes ?w1 x)) \<or>
              x \<in> set ys \<and> isInViewport ?w1 x)"
      using snoc.IH [of ?w1 "y # zs"] by blast
    have step: "initLoop (length (ys @ [y])) w = initLoop ?n ?w1"
      using len nth False by (simp add: Let_def)
    have "jazzyElements w' = filter (\<lambda>x. \<not> isInViewport w x) (ys @ [y]) @ zs"
      using w'(2) False by (simp add: view1 cong: filter_cong)
    moreover have "isInViewportCalls w' = isInViewportCalls w @ rev (ys @ [y])"
      using w'(3) by simp
    moreover have "animateInCalls w' =
        animateInCalls w @ rev (filter (isInViewport w) (ys @ [y]))"
      using w'(4) False by (simp add: view1 cong: filter_cong)
    moreover have "(''animated-in'' \<in> set (classList (nodes w' x))) =
        (''animated-in'' \<in> set (classList (nodes w x)) \<or>
         x \<in> set (ys @ [y]) \<and> isInViewport w x)" for x
      using w'(5) False by (auto simp: view1)
    ultimately show ?thesis
      unfolding step using w'(1) by blast
  next
    case True
    then have "hasTag w y"
      using snoc.prems(2) by simp
    then obtain w2 where w2: "animateIn y ?w1 = Inr w2"
      using animateIn_total [of ?w1 y] by (auto simp: hasTag_def)
    let ?w3 = "w2\<lparr>jazzyElements := splice1 ?n (jazzyElements w2)\<rparr>"
    have view3: "isInViewport ?w3 x = isInViewport w x" for x
      using animateIn_isInViewport [OF w2, of x] by (simp add: isInViewport_def)
    have tag3: "hasTag ?w3 x = hasTag w x" for x
      using animateIn_frame(5) [OF w2, of x] by (simp add: hasTag_def)
    have "jazzyElements ?w3 = ys @ zs"
      using animateIn_frame(1) [OF w2] snoc.prems(1) by (simp add: splice1_append)
    moreover have "\<forall>x\<in>set ys. isInViewport ?w3 x \<longrightarrow> hasTag ?w3 x"
      using snoc.prems(2) by (simp add: view3 tag3)
    ultimately obtain w' where w': "initLoop ?n ?w3 = Inr w'"
      "jazzyElements w' = filter (\<lambda>x. \<not> isInViewport ?w3 x) ys @ zs"
      "isInViewportCalls w' = isInViewportCalls ?w3 @ rev ys"
      "animateInCalls w' = animateInCalls ?w3 @ rev (filter (isInViewport ?w3) ys)"
      "\<forall>x. (''animated-in'' \<in> set (classList (nodes w' x))) =
             (''animated-in'' \<in> set (classList (nodes ?w3 x)) \<or>
              x \<in> set ys \<and> isInViewport ?w3 x)"
      using snoc.IH [of ?w3 zs] by blast
    have cls3: "(''animated-in'' \<in> set (classList (nodes w2 x))) =
        (x = y \<or> ''animated-in'' \<in> set (classList (nodes w x)))" for x
      using animateIn_animated [OF w2, of x] by simp
    have step: "initLoop (length (ys @ [y])) w = initLoop ?n ?w3"
      using len nth True w2 by (simp add: Let_def)
    have "jazzyElements w' = filter (\<lambda>x. \<not> isInViewport w x) (ys @ [y]) @ zs"
      using w'(2) True by (simp add: view3 cong: filter_cong)
    moreover have "isInViewportCalls w' = isInViewportCalls w @ rev (ys @ [y])"
      using w'(3) animateIn_frame(3) [OF w2] by simp
    moreover have "animateInCalls w' =
        animateInCalls w @ rev (filter (isInViewport w) (ys @ [y]))"
      using w'(4) animateIn_frame(4) [OF w2] True by (simp add: view3 cong: filter_cong)
    moreover have "(''animated-in'' \<in> set (classList (nodes w' x))) =
        (''animated-in'' \<in> set (classList (nodes w x)) \<or>
         x \<in> set (ys @ [y]) \<and> isInViewport w x)" for x
      using w'(5) True by (auto simp: view3 cls3)
    ultimately show ?thesis
      unfolding step using w'(1) by blast
  qed
qed

lemma pollingInit_spec:
  assumes "\<forall>x\<in>set (jazzyElements w). hasTag w x"
  shows "\<exists>w'. pollingInit w = Inr w' \<and>
           jazzyElements w' = filter (\<lambda>x. \<not> isInViewport w x) (jazzyElements w) \<and>
           isInViewportCalls w' = isInViewportCalls w @ rev (jazzyElements w) \<and>
           animateInCalls w' = animateInCalls w @ rev (filter (isInViewport w) (jazzyElements w)) \<and>
           (\<forall>x. (''animated-in'' \<in> set (classList (nodes w' x))) =
                  (''animated-in'' \<in> set (classList (nodes w x)) \<or>
                   x \<in> set (jazzyElements w) \<and> isInViewport w x))"
proof -
  from assms have "\<forall>x\<in>set (jazzyElements w). isInViewport w x \<longrightarrow> hasTag w x"
    by simp
  from initLoop_spec [of w "jazzyElements w" "[]", simplified, OF this]
  obtain w1 where w1: "initLoop (length (jazzyElements w)) w = Inr w1"
    "jazzyElements w1 = filter (\<lambda>x. \<not> isInViewport w x) (jazzyElements w)"
    "isInViewportCalls w1 = isInViewportCalls w @ rev (jazzyElements w)"
    "animateInCalls w1 = animateInCalls w @ rev (filter (isInViewport w) (jazzyElements w))"
    "\<forall>x. (''animated-in'' \<in> set (classList (nodes w1 x))) =
           (''animated-in'' \<in> set (classList (nodes w x)) \<or>
            x \<in> set (jazzyElements w) \<and> isInViewport w x)"
    by blast
  then show ?thesis
    by (simp add: pollingInit_def requestAnimationFrame_def)
qed

lemma count_list_distinct: "distinct xs \<Longrightarrow> x \<in> set xs \<Longrightarrow> count_list xs x = 1"
  by (induction xs) auto

lemma intersectionCallback_animates:
  assumes "hasTag w (target entry)" and "isIntersecting entry"
  shows "\<exists>w'. intersectionCallback k [entry] w = Inr w' \<and>
           animateInCalls w' = animateInCalls w @ [target entry] \<and>
           (\<forall>x. hasTag w' x = hasTag w x)"
proof -
  obtain w1 where w1: "animateIn (target entry) w = Inr w1"
    using assms(1) animateIn_total [of w "target entry"] by (auto simp: hasTag_def)
  have "intersectionCallback k [entry] w = Inr (disconnect k w1)"
    using assms(2) w1 by (simp add: intersectionCallback_def)
  moreover have "animateInCalls (disconnect k w1) = animateInCalls w @ [target entry]"
    using animateIn_frame(4) [OF w1] by (simp add: disconnect_def)
  moreover have "hasTag (disconnect k w1) x = hasTag w x" for x
    using animateIn_frame(5) [OF w1, of x] by (simp add: hasTag_def disconnect_def)
  ultimately show ?thesis
    by blast
qed

section \<open>Frames of a ramp\<close>

lemma step_effect:
  assumes "k < length (ramps w)"
  shows "textContent (nodes (step k t w) (rampElement (ramps w ! k))) =
           numberToString (stepValue (ramps w ! k) t)"
    and "rafQueue (step k t w) =
           rafQueue w @ (if stepAgain (ramps w ! k) t then [StepCallback k] else [])"
    and "ramps (step k t w) =
           (ramps w)[k := (ramps w ! k)\<lparr>startTimestamp := Some (stepStart (ramps w ! k) t)\<rparr>]"
  using assms by (simp_all add: step_def Let_def updateNode_def requestAnimationFrame_def)

lemma Math_min_Fin: "Math_min (Fin a) (Fin b) = Fin (min a b)"
  by (simp add: min_def)

lemma toDouble_one: "toDouble 1 = Fin 1"
  using toDouble_of_int [of 1] by simp

lemma toDouble_zero: "toDouble 0 = Fin 0"
  by (simp add: toDouble_def)

lemma dbl_div_Fin: "d \<noteq> 0 \<Longrightarrow> dbl_div (Fin a) (Fin d) = toDouble (a / d)"
  by (simp add: dbl_div_def)

lemma progress_range:
  assumes "0 < d" "0 \<le> a"
  shows "\<exists>p. Math_min (dbl_div (Fin a) (Fin d)) (Fin 1) = Fin p \<and> 0 \<le> p \<and> p \<le> 1"
proof -
  have "0 \<le> a / d"
    using assms by simp
  from toDouble_mono [OF this] have "js_le (Fin 0) (toDouble (a / d))"
    by (simp add: toDouble_zero)
  then show ?thesis
    using assms(1) by (cases "toDouble (a / d)") (simp_all add: dbl_div_Fin min_def)
qed

lemma progress_mono:
  assumes "0 < d" "0 \<le> a" "a \<le> a'"
    and "Math_min (dbl_div (Fin a) (Fin d)) (Fin 1) = Fin p"
    and "Math_min (dbl_div (Fin a') (Fin d)) (Fin 1) = Fin p'"
  shows "p \<le> p'"
proof -
  have "a / d \<le> a' / d"
    using assms(1,3) by (simp add: divide_right_mono)
  from toDouble_mono [OF this] have le: "js_le (toDouble (a / d)) (toDouble (a' / d))" .
  have "0 \<le> a / d"
    using assms by simp
  from toDouble_mono [OF this] have lo: "js_le (Fin 0) (toDouble (a / d))"
    by (simp add: toDouble_zero)
  from le lo assms(4,5) assms(1) show ?thesis
    by (cases "toDouble (a / d)"; cases "toDouble (a' / d)")
      (auto simp: dbl_div_Fin min_def split: if_splits)
qed

lemma progress_done:
  assumes "0 < d" "d \<le> a"
  shows "Math_min (dbl_div (Fin a) (Fin d)) (Fin 1) = Fin 1"
proof -
  have "1 \<le> a / d"
    using assms by simp
  from toDouble_mono [OF this] have "js_le (Fin 1) (toDouble (a / d))"
    by (simp add: toDouble_one)
  then show ?thesis
    using assms(1) by (cases "toDouble (a / d)") (simp_all add: dbl_div_Fin min_def)
qed

lemma difference_exact:
  assumes "\<bar>s\<bar> \<le> 2 ^ 52" "\<bar>e\<bar> \<le> 2 ^ 52"
  shows "dbl_sub (Fin (of_int e)) (Fin (of_int s)) = Fin (of_int (e - s))"
proof -
  have "\<bar>e - s\<bar> \<le> 2 ^ 53"
    using assms by simp
  from toDouble_of_int [OF this] show ?thesis
    by (simp add: dbl_sub_def js_sub_def)
qed

lemma toDouble_pow2_54: "toDouble (pow2 54) = Fin (pow2 54)" "toDouble (- pow2 54) = Fin (- pow2 54)"
proof -
  have big: "pow2 54 < pow2 1024"
    by (rule pow2_strict_mono) simp
  show "toDouble (pow2 54) = Fin (pow2 54)"
    using big by (intro toDouble_exact [of 1 54]) simp_all
  show "toDouble (- pow2 54) = Fin (- pow2 54)"
    using big by (intro toDouble_exact [of "- 1" 54]) simp_all
qed

lemma product_rounded:
  assumes "\<bar>s\<bar> \<le> 2 ^ 52" "\<bar>e\<bar> \<le> 2 ^ 52" "0 \<le> p" "p \<le> 1"
  shows "\<exists>m. toDouble (p * of_int (e - s)) = Fin m \<and> \<bar>m\<bar> \<le> of_int (2 ^ 53)"
proof -
  define B :: rat where "B = of_int \<bar>e - s\<bar>"
  have b: "\<bar>\<bar>e - s\<bar>\<bar> \<le> 2 ^ 53" "\<bar>- \<bar>e - s\<bar>\<bar> \<le> 2 ^ 53"
    using assms(1,2) by simp_all
  have tb: "toDouble B = Fin B" "toDouble (- B) = Fin (- B)"
    using toDouble_of_int [OF b(1)] toDouble_of_int [OF b(2)] by (simp_all add: B_def)
  have "\<bar>p * of_int (e - s)\<bar> = p * B"
    using assms(3) by (simp add: B_def abs_mult)
  also have "\<dots> \<le> 1 * B"
    using assms(4) by (intro mult_right_mono) (simp_all add: B_def)
  finally have "- B \<le> p * of_int (e - s)" "p * of_int (e - s) \<le> B"
    by (simp_all add: abs_le_iff)
  from toDouble_bounded [OF this tb] obtain m where
    m: "toDouble (p * of_int (e - s)) = Fin m" "- B \<le> m" "m \<le> B"
    by blast
  have "B \<le> of_int (2 ^ 53)"
    unfolding B_def using b(1) by (simp only: of_int_le_iff)
  with m show ?thesis
    by (auto simp: abs_le_iff)
qed

lemma sum_rounded:
  assumes "\<bar>s\<bar> \<le> 2 ^ 52" "\<bar>m\<bar> \<le> of_int (2 ^ 53)"
  shows "\<exists>v. toDouble (m + of_int s) = Fin v"
proof -
  have "\<bar>(of_int s :: rat)\<bar> \<le> of_int (2 ^ 52)"
    using assms(1) by (simp only: of_int_abs [symmetric] of_int_le_iff)
  with assms(2) have "\<bar>m + of_int s\<bar> \<le> of_int (2 ^ 53) + of_int (2 ^ 52)"
    by linarith
  also have "\<dots> \<le> pow2 54"
    by (simp add: pow2_def)
  finally have "- pow2 54 \<le> m + of_int s" "m + of_int s \<le> pow2 54"
    by (simp_all add: abs_le_iff)
  from toDouble_bounded [OF this toDouble_pow2_54] show ?thesis
    by blast
qed

lemma stepValue_unfold:
  assumes "rampStart r = Fin s" "rampEnd r = Fin e" "\<bar>s\<bar> \<le> 2 ^ 52" "\<bar>e\<bar> \<le> 2 ^ 52"
  shows "stepValue r t =
           Math_floor (dbl_add (dbl_mul (stepProgress r t) (Fin (of_int (e - s))))
                               (Fin (of_int s)))"
proof -
  have "\<bar>s\<bar> \<le> 2 ^ 53" "\<bar>e\<bar> \<le> 2 ^ 53"
    using assms(3,4) by simp_all
  then have "asDouble (Fin s) = Fin (of_int s)" "asDouble (Fin e) = Fin (of_int e)"
    by (simp_all add: asDouble_def toDouble_of_int)
  then show ?thesis
    using difference_exact [OF assms(3,4)] by (simp add: stepValue_def assms(1,2))
qed

lemma stepValue_fin:
  assumes "rampStart r = Fin s" "rampEnd r = Fin e" "\<bar>s\<bar> \<le> 2 ^ 52" "\<bar>e\<bar> \<le> 2 ^ 52"
    and "stepProgress r t = Fin p" "0 \<le> p" "p \<le> 1"
  shows "\<exists>m v. toDouble (p * of_int (e - s)) = Fin m \<and> toDouble (m + of_int s) = Fin v \<and>
           stepValue r t = Fin \<lfloor>v\<rfloor>"
proof -
  from product_rounded [OF assms(3,4,6,7)] obtain m where
    m: "toDouble (p * of_int (e - s)) = Fin m" "\<bar>m\<bar> \<le> of_int (2 ^ 53)"
    by blast
  from sum_rounded [OF assms(3) m(2)] obtain v where v: "toDouble (m + of_int s) = Fin v"
    by blast
  have "stepValue r t = Fin \<lfloor>v\<rfloor>"
    unfolding stepValue_unfold [OF assms(1-4)] assms(5)
    by (simp add: dbl_add_def dbl_mul_def m(1) v del: of_int_diff)
  with m(1) v show ?thesis
    by blast
qed

lemma stepValue_mono:
  assumes "rampStart r = Fin s" "rampEnd r = Fin e"
    and "rampStart r' = Fin s" "rampEnd r' = Fin e"
    and "\<bar>s\<bar> \<le> 2 ^ 52" "\<bar>e\<bar> \<le> 2 ^ 52"
    and "stepProgress r t = Fin p" "stepProgress r' t' = Fin p'"
    and "0 \<le> p" "p \<le> p'" "p' \<le> 1"
  shows "s \<le> e \<Longrightarrow> js_le (stepValue r t) (stepValue r' t')"
    and "e < s \<Longrightarrow> js_le (stepValue r' t') (stepValue r t)"
proof -
  have p1: "p \<le> 1" and p0: "0 \<le> p'"
    using assms(9,10,11) by simp_all
  from stepValue_fin [OF assms(1,2,5,6,7,9) p1] obtain m v where
    a: "toDouble (p * of_int (e - s)) = Fin m" "toDouble (m + of_int s) = Fin v"
      "stepValue r t = Fin \<lfloor>v\<rfloor>"
    by blast
  from stepValue_fin [OF assms(3,4,5,6,8) p0 assms(11)] obtain m' v' where
    b: "toDouble (p' * of_int (e - s)) = Fin m'" "toDouble (m' + of_int s) = Fin v'"
      "stepValue r' t' = Fin \<lfloor>v'\<rfloor>"
    by blast
  show "js_le (stepValue r t) (stepValue r' t')" if "s \<le> e"
  proof -
    have "(0::rat) \<le> of_int (e - s)"
      using that by simp
    with assms(10) have "p * of_int (e - s) \<le> p' * of_int (e - s)"
      by (rule mult_right_mono)
    from toDouble_mono [OF this] have "m \<le> m'"
      by (simp add: a(1) b(1) del: of_int_diff)
    then have "m + of_int s \<le> m' + of_int s"
      by simp
    from toDouble_mono [OF this] have "v \<le> v'"
      by (simp add: a(2) b(2))
    then show ?thesis
      by (simp add: a(3) b(3) floor_mono)
  qed
  show "js_le (stepValue r' t') (stepValue r t)" if "e < s"
  proof -
    have "of_int (e - s) \<le> (0::rat)"
      using that by simp
    with assms(10) have "p' * of_int (e - s) \<le> p * of_int (e - s)"
      by (rule mult_right_mono_neg)
    from toDouble_mono [OF this] have "m' \<le> m"
      by (simp add: a(1) b(1) del: of_int_diff)
    then have "m' + of_int s \<le> m + of_int s"
      by simp
    from toDouble_mono [OF this] have "v' \<le> v"
      by (simp add: a(2) b(2))
    then show ?thesis
      by (simp add: a(3) b(3) floor_mono)
  qed
qed

lemma stepValue_ends:
  assumes "rampStart r = Fin s" "rampEnd r = Fin e" "\<bar>s\<bar> \<le> 2 ^ 52" "\<bar>e\<bar> \<le> 2 ^ 52"
  shows "stepProgress r t = Fin 0 \<Longrightarrow> stepValue r t = Fin s"
    and "stepProgress r t = Fin 1 \<Longrightarrow> stepValue r t = Fin e"
proof -
  have s: "\<bar>s\<bar> \<le> 2 ^ 53" and e: "\<bar>e\<bar> \<le> 2 ^ 53" and d: "\<bar>e - s\<bar> \<le> 2 ^ 53"
    using assms(3,4) by simp_all
  show "stepValue r t = Fin s" if "stepProgress r t = Fin 0"
    unfolding stepValue_unfold [OF assms] that
    using toDouble_of_int [OF s] by (simp add: dbl_add_def dbl_mul_def toDouble_zero)
  show "stepValue r t = Fin e" if "stepProgress r t = Fin 1"
    unfolding stepValue_unfold [OF assms] that
    using toDouble_of_int [OF d] toDouble_of_int [OF e]
    by (simp add: dbl_add_def dbl_mul_def del: of_int_diff) simp
qed

section \<open>Facts about the example pages\<close>

lemma mobile_elements: "documentElements (engine offset50 mobileEnv) (document mobileEnv) = [21, 22]"
  by (simp add: documentElements_def matches_def engine_def mobileEnv_def mobilePage_def blankElement_def)

lemma polling_elements:
  "documentElements (engine noSettings pollingEnv) (document pollingEnv) = [11, 12, 13]"
  by (simp add: documentElements_def matches_def engine_def pollingEnv_def scrollPage_def
      blankElement_def)

lemma scrollWorld_jazzyElements: "jazzyElements scrollWorld = [11, 12, 13]"
  using JazzyScroll_polling(1) [of pollingEnv noSettings]
  by (simp add: scrollWorld_def polling_elements) (simp add: pollingEnv_def)

lemma scrollWorld_hasTag: "hasTag scrollWorld 11" "hasTag scrollWorld 12" "hasTag scrollWorld 13"
  by (simp_all add: hasTag_def scrollWorld_def JazzyScroll_node_frame pollingEnv_def
      scrollPage_def blankElement_def)

lemma scrollWorld_offset: "jazzyOffset (nodes scrollWorld 12) = Some (Fin 0)"
proof -
  have "resolveOffset (engine noSettings pollingEnv) (page pollingEnv 12) = Fin 0"
    by (simp add: resolveOffset_def getAttribute_def pollingEnv_def scrollPage_def
        blankElement_def engine_def noSettings_def orDefault_def js_or_def parseInt_zero)
  then show ?thesis
    by (simp add: scrollWorld_def JazzyScroll_jazzyOffset polling_elements)
qed

lemma scrollWorld_attributes: "attributes (nodes scrollWorld x) = attributes (scrollPage x)"
  and scrollWorld_textContent: "textContent (nodes scrollWorld x) = textContent (scrollPage x)"
  and scrollWorld_speed: "speed scrollWorld = 500"
  by (simp_all add: scrollWorld_def JazzyScroll_node_frame JazzyScroll_engine pollingEnv_def
      engine_def noSettings_def orDefault_def js_or_def)

lemma scrollWorld_start12: "startNumber (nodes scrollWorld 12) = Fin 0"
  by (simp add: startNumber_def getAttribute_def scrollWorld_attributes scrollPage_def
      blankElement_def js_or_def parseInt_zero)

lemma scrollWorld_end12: "endNumber (nodes scrollWorld 12) = Fin 42"
proof -
  have "parseInt (Str ''42'') = Fin 42"
    by code_simp
  then show ?thesis
    by (simp add: endNumber_def getAttribute_def scrollWorld_attributes scrollWorld_textContent
        scrollPage_def blankElement_def js_or_def)
qed

lemma scrollWorld_end13: "endNumber (nodes scrollWorld 13) = NaN"
proof -
  have "parseInt (Str ''soon'') = NaN"
    by code_simp
  then show ?thesis
    by (simp add: endNumber_def getAttribute_def scrollWorld_attributes scrollWorld_textContent
        scrollPage_def blankElement_def js_or_def)
qed

lemma scrollWorld_jazzySpeed12: "jazzySpeed (nodes scrollWorld 12) = Some ''1000ms''"
proof -
  have "resolveSpeed (engine noSettings pollingEnv) (page pollingEnv 12) = ''1000ms''"
    by (simp add: resolveSpeed_def getAttribute_def pollingEnv_def scrollPage_def
        blankElement_def)
  then show ?thesis
    by (simp add: scrollWorld_def JazzyScroll_jazzySpeed polling_elements)
qed


lemma observerWorld_facts:
  "supportsIntersectionObserver observerWorld"
  "offset observerWorld = 0"
  "intersectionObservers observerWorld = []"
  "threshold (heap observerWorld (thisOptions observerWorld)) = [0, 1]"
  "attributes (nodes observerWorld x) = attributes (mobilePage x)"
proof -
  show "supportsIntersectionObserver observerWorld"
    by (simp add: observerWorld_def JazzyScroll_polling mobileEnv_def)
  show "offset observerWorld = 0"
    by (simp add: observerWorld_def JazzyScroll_engine engine_def mobileEnv_def)
  show "intersectionObservers observerWorld = []"
    "threshold (heap observerWorld (thisOptions observerWorld)) = [0, 1]"
    by (simp_all add: observerWorld_def JazzyScroll_def Let_def documentElements_def
        engine_def mobileEnv_def)
  show "attributes (nodes observerWorld x) = attributes (mobilePage x)"
    by (simp add: observerWorld_def JazzyScroll_node_frame mobileEnv_def)
qed

lemma observerWorld_offsets:
  "resolveOffset observerWorld (nodes observerWorld 21) = Fin 30"
  "resolveOffset observerWorld (nodes observerWorld 22) = Fin 0"
proof -
  have "parseInt (Str ''30'') = Fin 30"
    by code_simp
  then show "resolveOffset observerWorld (nodes observerWorld 21) = Fin 30"
    by (simp add: resolveOffset_def getAttribute_def observerWorld_facts mobilePage_def
        blankElement_def)
  show "resolveOffset observerWorld (nodes observerWorld 22) = Fin 0"
    by (simp add: resolveOffset_def getAttribute_def observerWorld_facts mobilePage_def
        blankElement_def parseInt_zero)
qed

lemma margin_examples:
  "marginOf (Fin 30) = ''0px 0px -30px 0px''"
  "marginOf (Fin 0) = ''0px 0px 0px 0px''"
  by code_simp+

lemma scrollWorld_polling: "\<not> supportsIntersectionObserver scrollWorld"
  and scrollWorld_viewportBottom: "viewportBottom scrollWorld = 800"
  by (simp_all add: scrollWorld_def JazzyScroll_polling pollingEnv_def)

lemma scrollWorld_offsets:
  "jazzyOffset (nodes scrollWorld 11) = Some (Fin 0)"
  "jazzyOffset (nodes scrollWorld 13) = Some (Fin 0)"
proof -
  have "resolveOffset (engine noSettings pollingEnv) (page pollingEnv x) = Fin 0"
    if "x = 11 \<or> x = 13" for x
    using that
    by (auto simp: resolveOffset_def getAttribute_def pollingEnv_def scrollPage_def
        blankElement_def engine_def noSettings_def orDefault_def js_or_def parseInt_zero)
  then show "jazzyOffset (nodes scrollWorld 11) = Some (Fin 0)"
    "jazzyOffset (nodes scrollWorld 13) = Some (Fin 0)"
    by (simp_all add: scrollWorld_def JazzyScroll_jazzyOffset polling_elements)
qed

lemma scrollWorld_classList: "classList (nodes scrollWorld x) = classList (scrollPage x)"
  by (simp add: scrollWorld_def JazzyScroll_node_frame pollingEnv_def)

lemma movedWorld_eq: "movedWorld = addElement 11 scrollWorld"
  by (simp add: movedWorld_def mutationCallback_single matches_def scrollWorld_attributes
      scrollWorld_classList scrollPage_def blankElement_def)

lemma movedWorld_jazzyElements: "jazzyElements movedWorld = [11, 12, 13, 11]"
proof -
  have "\<not> supportsIntersectionObserver movedWorld"
    using scrollWorld_polling by (simp add: movedWorld_eq)
  moreover have "tracked movedWorld = tracked scrollWorld @ [11]"
    by (simp add: movedWorld_eq)
  ultimately show ?thesis
    using scrollWorld_polling unfolding tracked_def
    by (simp add: scrollWorld_jazzyElements)
qed

lemma movedWorld_hasTag: "hasTag movedWorld x = hasTag scrollWorld x"
  by (simp add: hasTag_def movedWorld_eq)

lemma movedWorld_isInViewport:
  "isInViewport movedWorld 11" "isInViewport movedWorld 12" "\<not> isInViewport movedWorld 13"
proof -
  have "offset scrollWorld = 0"
    by (simp add: scrollWorld_def JazzyScroll_engine engine_def pollingEnv_def
        noSettings_def orDefault_def js_or_def)
  then have r: "resolveOffset scrollWorld (nodes scrollWorld 11) = Fin 0"
    by (simp add: resolveOffset_def getAttribute_def scrollWorld_attributes scrollPage_def
        blankElement_def parseInt_zero)
  have "boundingTop (nodes scrollWorld x) = boundingTop (scrollPage x)" for x
    by (simp add: scrollWorld_def JazzyScroll_node_frame pollingEnv_def)
  then have top: "boundingTop (nodes movedWorld x) = boundingTop (scrollPage x)" for x
    by (simp add: movedWorld_eq)
  have vb: "viewportBottom movedWorld = 800"
    by (simp add: movedWorld_eq scrollWorld_viewportBottom)
  have off: "jazzyOffset (nodes movedWorld 11) = Some (Fin 0)"
    "jazzyOffset (nodes movedWorld 12) = Some (Fin 0)"
    "jazzyOffset (nodes movedWorld 13) = Some (Fin 0)"
    by (simp_all add: movedWorld_eq addElement_jazzyOffset r scrollWorld_offsets scrollWorld_offset)
  show "isInViewport movedWorld 11" "isInViewport movedWorld 12" "\<not> isInViewport movedWorld 13"
    by (simp_all add: isInViewport_def top vb off scrollPage_def blankElement_def)
qed

lemma movedObserverWorld_eq:
  "movedObserverWorld = addElement 21 (JazzyScroll offset50 mobileEnv)"
  by (simp add: movedObserverWorld_def mutationCallback_single matches_def
      JazzyScroll_node_frame mobileEnv_def mobilePage_def blankElement_def)

lemma movedObserverWorld_facts:
  "tracked movedObserverWorld = [21, 22, 21]"
  "animateInCalls movedObserverWorld = []"
  "hasTag movedObserverWorld 21"
proof -
  show "tracked movedObserverWorld = [21, 22, 21]"
    by (simp add: movedObserverWorld_eq tracked_JazzyScroll mobile_elements)
  show "animateInCalls movedObserverWorld = []"
    by (simp add: movedObserverWorld_eq JazzyScroll_calls)
  show "hasTag movedObserverWorld 21"
    by (simp add: movedObserverWorld_eq hasTag_def JazzyScroll_node_frame mobileEnv_def
        mobilePage_def blankElement_def)
qed

lemma animateNumber_scrollWorld:
  "ramps (animateNumber 12 (Fin 0) (Fin 100) (Fin 800) scrollWorld) = [upRamp]"
  "ramps (animateNumber 12 (Fin 0) (Fin 100) (Fin (- 800)) scrollWorld) = [backRamp]"
proof -
  have "ramps scrollWorld = []"
    by (simp add: scrollWorld_def JazzyScroll_calls)
  then show "ramps (animateNumber 12 (Fin 0) (Fin 100) (Fin 800) scrollWorld) = [upRamp]"
    "ramps (animateNumber 12 (Fin 0) (Fin 100) (Fin (- 800)) scrollWorld) = [backRamp]"
    by (simp_all add: animateNumber_def requestAnimationFrame_def upRamp_def backRamp_def)
qed

lemma text_examples:
  "intToString 0 = ''0''"
  "intToString (- 50) = ''-50''"
  "intToString 100 = ''100''"
  by code_simp+



lemma movedWorld_calls: "isInViewportCalls movedWorld = []"
proof -
  have "isInViewportCalls scrollWorld = []"
    by (simp add: scrollWorld_def JazzyScroll_calls)
  then show ?thesis
    by (simp add: movedWorld_eq)
qed

lemma big_difference: "toDouble 9007199254740993 = Fin 9007199254740992"
proof (rule toDouble_at [of _ 53 4503599627370496])
  show "roundHalfEven (9007199254740993 / pow2 (53 - 52)) = 4503599627370496"
    using roundHalfEven_tie [of "9007199254740993 / 2" 4503599627370496]
    by (simp add: pow2_def)
qed (simp_all add: pow2_def)

lemma quotient_232: "toDouble (232 / 800) = Fin (5224175567749775 / 18014398509481984)"
proof (rule toDouble_at [of _ "- 2" 5224175567749775])
  show "roundHalfEven (232 / 800 / pow2 (- 2 - 52)) = 5224175567749775"
    by (rule roundHalfEven_near) (simp_all add: pow2_def)
qed (simp_all add: pow2_def)

lemma product_232:
  "toDouble (5224175567749775 / 18014398509481984 * 100) =
     Fin (8162774324609023 / 281474976710656)"
proof (rule toDouble_at [of _ 4 8162774324609023])
  show "roundHalfEven (5224175567749775 / 18014398509481984 * 100 / pow2 (4 - 52)) =
      8162774324609023"
    by (rule roundHalfEven_near) (simp_all add: pow2_def)
qed (simp_all add: pow2_def)

lemma sum_232:
  "toDouble (8162774324609023 / 281474976710656) = Fin (8162774324609023 / 281474976710656)"
  using toDouble_exact [of 8162774324609023 "- 48" "8162774324609023 / 281474976710656"]
  by (simp add: pow2_def)

lemma toDouble_examples:
  "toDouble 100 = Fin 100"
  "toDouble 232 = Fin 232"
  "toDouble 400 = Fin 400"
  "toDouble 800 = Fin 800"
  "toDouble (- 50) = Fin (- 50)"
  "toDouble (- (1 / 2)) = Fin (- (1 / 2))"
  "toDouble 9007199254740992 = Fin 9007199254740992"
  "toDouble 9007199254740990 = Fin 9007199254740990"
  "toDouble 9007199254740991 = Fin 9007199254740991"
  "toDouble (- 2) = Fin (- 2)"
proof -
  show "toDouble 100 = Fin 100"
    using toDouble_of_int [of 100] by simp
  show "toDouble 232 = Fin 232"
    using toDouble_of_int [of 232] by simp
  show "toDouble 400 = Fin 400"
    using toDouble_of_int [of 400] by simp
  show "toDouble 800 = Fin 800"
    using toDouble_of_int [of 800] by simp
  show "toDouble (- 50) = Fin (- 50)"
    using toDouble_of_int [of "- 50"] by simp
  show "toDouble (- (1 / 2)) = Fin (- (1 / 2))"
    using toDouble_exact [of "- 1" "- 1" "- (1 / 2)"] by (simp add: pow2_def)
  show "toDouble 9007199254740992 = Fin 9007199254740992"
    using toDouble_of_int [of 9007199254740992] by simp
  show "toDouble 9007199254740990 = Fin 9007199254740990"
    using toDouble_of_int [of 9007199254740990] by simp
  show "toDouble 9007199254740991 = Fin 9007199254740991"
    using toDouble_of_int [of 9007199254740991] by simp
  show "toDouble (- 2) = Fin (- 2)"
    using toDouble_of_int [of "- 2"] by simp
qed

lemma backRamp_frames:
  "stepElapsed backRamp 1000 = Fin 0"
  "stepStart backRamp 1000 = 1000"
  "stepValue backRamp 1000 = Fin 0"
  "stepElapsed (backRamp\<lparr>startTimestamp := Some 1000\<rparr>) 1400 = Fin 400"
  "stepValue (backRamp\<lparr>startTimestamp := Some 1000\<rparr>) 1400 = Fin (- 50)"
proof -
  show e1: "stepElapsed backRamp 1000 = Fin 0"
    and "stepStart backRamp 1000 = 1000"
    by (simp_all add: stepElapsed_def stepStart_def backRamp_def dbl_sub_def js_sub_def
        toDouble_zero)
  show e2: "stepElapsed (backRamp\<lparr>startTimestamp := Some 1000\<rparr>) 1400 = Fin 400"
    by (simp add: stepElapsed_def stepStart_def dbl_sub_def js_sub_def toDouble_examples)
  have r: "rampStart backRamp = Fin 0" "rampEnd backRamp = Fin 100"
    "rampDuration backRamp = Fin (- 800)"
    by (simp_all add: backRamp_def)
  have p1: "stepProgress backRamp 1000 = Fin 0"
    by (simp add: stepProgress_def e1 r dbl_div_def toDouble_zero)
  have p2: "stepProgress (backRamp\<lparr>startTimestamp := Some 1000\<rparr>) 1400 = Fin (- (1 / 2))"
    by (simp add: stepProgress_def e2 r dbl_div_def toDouble_examples)
  show "stepValue backRamp 1000 = Fin 0"
    by (simp add: stepValue_def p1 r asDouble_def dbl_sub_def js_sub_def dbl_mul_def
        dbl_add_def toDouble_examples toDouble_zero)
  show "stepValue (backRamp\<lparr>startTimestamp := Some 1000\<rparr>) 1400 = Fin (- 50)"
    by (simp add: stepValue_def p2 r asDouble_def dbl_sub_def js_sub_def dbl_mul_def
        dbl_add_def toDouble_examples toDouble_zero)
qed

lemma wideRamp_frames:
  "stepElapsed wideRamp 1800 = Fin 800"
  "stepProgress wideRamp 1800 = Fin 1"
  "stepValue wideRamp 1800 = Fin 9007199254740990"
proof -
  show e: "stepElapsed wideRamp 1800 = Fin 800"
    by (simp add: stepElapsed_def stepStart_def wideRamp_def dbl_sub_def js_sub_def
        toDouble_examples)
  have r: "rampStart wideRamp = Fin (- 2)" "rampEnd wideRamp = Fin 9007199254740991"
    "rampDuration wideRamp = Fin 800"
    by (simp_all add: wideRamp_def)
  show p: "stepProgress wideRamp 1800 = Fin 1"
    by (simp add: stepProgress_def e r dbl_div_def toDouble_one)
  have d: "dbl_sub (asDouble (rampEnd wideRamp)) (asDouble (rampStart wideRamp)) =
      Fin 9007199254740992"
    by (simp add: r asDouble_def toDouble_examples dbl_sub_def js_sub_def big_difference)
  show "stepValue wideRamp 1800 = Fin 9007199254740990"
    unfolding stepValue_def p d
    by (simp add: r asDouble_def dbl_mul_def dbl_add_def toDouble_examples)
qed

lemma upRamp_frame_232:
  "stepElapsed (upRamp\<lparr>startTimestamp := Some 1000\<rparr>) 1232 = Fin 232"
  "stepProgress (upRamp\<lparr>startTimestamp := Some 1000\<rparr>) 1232 =
     Fin (5224175567749775 / 18014398509481984)"
  "Math_floor (dbl_add (dbl_mul (Fin (5224175567749775 / 18014398509481984)) (Fin 100))
     (Fin 0)) = Fin 28"
proof -
  show e: "stepElapsed (upRamp\<lparr>startTimestamp := Some 1000\<rparr>) 1232 = Fin 232"
    by (simp add: stepElapsed_def stepStart_def dbl_sub_def js_sub_def toDouble_examples)
  have q: "toDouble (29 / 100) = Fin (5224175567749775 / 18014398509481984)"
    using quotient_232 by simp
  have r: "rampDuration (upRamp\<lparr>startTimestamp := Some 1000\<rparr>) = Fin 800"
    by (simp add: upRamp_def)
  show "stepProgress (upRamp\<lparr>startTimestamp := Some 1000\<rparr>) 1232 =
      Fin (5224175567749775 / 18014398509481984)"
    by (simp add: stepProgress_def e r dbl_div_def q)
  have "dbl_mul (Fin (5224175567749775 / 18014398509481984)) (Fin 100) =
      Fin (8162774324609023 / 281474976710656)"
    unfolding dbl_mul_def js_mul.simps roundResult.simps by (rule product_232)
  moreover have "dbl_add (Fin (8162774324609023 / 281474976710656)) (Fin 0) =
      Fin (8162774324609023 / 281474976710656)"
    unfolding dbl_add_def js_add.simps roundResult.simps add_0_right by (rule sum_232)
  moreover have "\<lfloor>8162774324609023 / 281474976710656 :: rat\<rfloor> = 28"
    by (rule floor_unique) simp_all
  ultimately show "Math_floor (dbl_add (dbl_mul (Fin (5224175567749775 / 18014398509481984))
      (Fin 100)) (Fin 0)) = Fin 28"
    by (simp only: Math_floor.simps)
qed

section \<open>The offset on a device with an orientation\<close>

text \<open>
  C1, as the code has it. On a runtime where \<open>window.orientation\<close> is defined the
  engine's own offset is 0 whatever the settings say, and every element \<open>e\<close> found at
  construction, as every element \<open>x\<close> added later, that has no (non-empty)
  \<open>data-jazzy-scroll-offset\<close> attribute gets the offset 0. An element that carries the
  attribute keeps its own value, \<open>parseInt\<close> of the attribute: the override of line 56
  does not reach it.
\<close>

theorem mobile_offset:
  assumes "hasOrientation ev"
    and "e \<in> set (documentElements (engine st ev) (document ev))"
  shows "offset (JazzyScroll st ev) = 0 \<and>
         jazzyOffset (nodes (JazzyScroll st ev) e) =
           Some (if truthy (getAttribute (page ev e) ''data-jazzy-scroll-offset'')
                 then parseInt (getAttribute (page ev e) ''data-jazzy-scroll-offset'')
                 else Fin 0) \<and>
         jazzyOffset (nodes (addElement x (JazzyScroll st ev)) x) =
           Some (if truthy (getAttribute (page ev x) ''data-jazzy-scroll-offset'')
                 then parseInt (getAttribute (page ev x) ''data-jazzy-scroll-offset'')
                 else Fin 0)"
proof -
  have off: "offset (engine st ev) = 0"
    using assms(1) by (simp add: engine_def)
  then have off': "offset (JazzyScroll st ev) = 0"
    by (simp add: JazzyScroll_engine)
  have "resolveOffset (engine st ev) (page ev e) =
      (if truthy (getAttribute (page ev e) ''data-jazzy-scroll-offset'')
       then parseInt (getAttribute (page ev e) ''data-jazzy-scroll-offset'')
       else Fin 0)"
    using off by (simp add: resolveOffset_def parseInt_zero)
  then have found: "jazzyOffset (nodes (JazzyScroll st ev) e) =
      Some (if truthy (getAttribute (page ev e) ''data-jazzy-scroll-offset'')
            then parseInt (getAttribute (page ev e) ''data-jazzy-scroll-offset'')
            else Fin 0)"
    using JazzyScroll_jazzyOffset [OF assms(2)] by simp
  have "getAttribute (nodes (JazzyScroll st ev) x) n = getAttribute (page ev x) n" for n
    by (simp add: getAttribute_def JazzyScroll_node_frame)
  then have "resolveOffset (JazzyScroll st ev) (nodes (JazzyScroll st ev) x) =
      (if truthy (getAttribute (page ev x) ''data-jazzy-scroll-offset'')
       then parseInt (getAttribute (page ev x) ''data-jazzy-scroll-offset'')
       else Fin 0)"
    using off' by (simp add: resolveOffset_def parseInt_zero)
  then have later: "jazzyOffset (nodes (addElement x (JazzyScroll st ev)) x) =
      Some (if truthy (getAttribute (page ev x) ''data-jazzy-scroll-offset'')
            then parseInt (getAttribute (page ev x) ''data-jazzy-scroll-offset'')
            else Fin 0)"
    by (simp add: addElement_jazzyOffset)
  from off' found later show ?thesis
    by simp
qed

text \<open>
  C1 as it was stated fails: with the settings \<open>offset: 50\<close> on such a runtime, the
  tracked element 21, whose attribute says 30, has the offset 30.
\<close>

theorem mobile_offset_counterexample:
  "offset (JazzyScroll offset50 mobileEnv) = 0 \<and>
   tracked (JazzyScroll offset50 mobileEnv) = [21, 22] \<and>
   jazzyOffset (nodes (JazzyScroll offset50 mobileEnv) 21) = Some (Fin 30)"
proof -
  have "parseInt (Str ''30'') = Fin 30"
    by code_simp
  then have "resolveOffset (engine offset50 mobileEnv) (page mobileEnv 21) = Fin 30"
    by (simp add: resolveOffset_def getAttribute_def mobileEnv_def mobilePage_def blankElement_def)
  moreover have "21 \<in> set (documentElements (engine offset50 mobileEnv) (document mobileEnv))"
    by (simp add: mobile_elements)
  moreover have "offset (engine offset50 mobileEnv) = 0"
    by (simp add: engine_def mobileEnv_def)
  ultimately show ?thesis
    by (simp add: JazzyScroll_jazzyOffset JazzyScroll_engine tracked_JazzyScroll mobile_elements)
qed

theorem mobile_offset_witness:
  "hasOrientation mobileEnv \<and>
   22 \<in> set (documentElements (engine offset50 mobileEnv) (document mobileEnv)) \<and>
   offset (JazzyScroll offset50 mobileEnv) = 0 \<and>
   jazzyOffset (nodes (JazzyScroll offset50 mobileEnv) 22) = Some (Fin 0)"
proof -
  have h1: "hasOrientation mobileEnv"
    by (simp add: mobileEnv_def)
  have h2: "22 \<in> set (documentElements (engine offset50 mobileEnv) (document mobileEnv))"
    by (simp add: mobile_elements)
  have "\<not> truthy (getAttribute (page mobileEnv 22) ''data-jazzy-scroll-offset'')"
    by (simp add: getAttribute_def mobileEnv_def mobilePage_def blankElement_def)
  then show ?thesis
    using h1 h2 mobile_offset [OF h1 h2] by simp
qed

section \<open>Settings given as zero\<close>

text \<open>
  C5. A setting given as \<open>0\<close> is not told from one that was not given: the constructor
  builds the same engine, so \<open>speed: 0\<close> gives the speed 500 and \<open>delay: 0\<close> the
  delay 0; \<open>offset: 0\<close> likewise gives the engine of an absent offset.
\<close>

theorem config_zero:
  "JazzyScroll (st\<lparr>settingsSpeed := Some 0\<rparr>) ev = JazzyScroll (st\<lparr>settingsSpeed := None\<rparr>) ev \<and>
   JazzyScroll (st\<lparr>settingsDelay := Some 0\<rparr>) ev = JazzyScroll (st\<lparr>settingsDelay := None\<rparr>) ev \<and>
   JazzyScroll (st\<lparr>settingsOffset := Some 0\<rparr>) ev = JazzyScroll (st\<lparr>settingsOffset := None\<rparr>) ev \<and>
   speed (JazzyScroll (st\<lparr>settingsSpeed := Some 0\<rparr>) ev) = 500 \<and>
   delay (JazzyScroll (st\<lparr>settingsDelay := Some 0\<rparr>) ev) = 0"
  by (simp add: JazzyScroll_engine) (simp add: JazzyScroll_def engine_def orDefault_def js_or_def)

section \<open>The pass visits every pending element\<close>

text \<open>
  C9, as the code has it. In one pass of \<open>init\<close> over a collection whose elements
  carry the marker attribute, the pass ends without an error and the calls of
  \<open>isInViewport\<close> it makes are the collection as it stood at the start, from the last
  entry to the first: every entry is evaluated once, none is skipped and none is visited
  again, although the entries in view are spliced out on the way. Where the collection
  holds each element once, each element is evaluated exactly once.
\<close>

theorem init_visits_each_once:
  assumes "\<forall>x\<in>set (jazzyElements w). hasTag w x"
  shows "\<exists>w' calls. pollingInit w = Inr w' \<and>
           isInViewportCalls w' = isInViewportCalls w @ calls \<and>
           calls = rev (jazzyElements w) \<and>
           (distinct (jazzyElements w) \<longrightarrow>
              (\<forall>x\<in>set (jazzyElements w). count_list calls x = 1))"
  using pollingInit_spec [OF assms] by (auto simp: count_list_distinct)

text \<open>
  C9 as it was stated, for every pending element, fails where an element is in the
  collection twice: element 11, registered again after it was moved, is evaluated twice
  in one pass, the second time after it was activated.
\<close>

theorem init_visits_each_once_counterexample:
  "jazzyElements movedWorld = [11, 12, 13, 11] \<and>
   hasTag movedWorld 11 \<and> hasTag movedWorld 12 \<and> hasTag movedWorld 13 \<and>
   \<not> isl (pollingInit movedWorld) \<and>
   isInViewportCalls (projr (pollingInit movedWorld)) = [11, 13, 12, 11] \<and>
   count_list (isInViewportCalls (projr (pollingInit movedWorld))) 11 = 2"
proof -
  have tags: "\<forall>x\<in>set (jazzyElements movedWorld). hasTag movedWorld x"
    by (simp add: movedWorld_jazzyElements movedWorld_hasTag scrollWorld_hasTag)
  with pollingInit_spec [OF tags] movedWorld_calls obtain w' where
    "pollingInit movedWorld = Inr w'"
    "isInViewportCalls w' = rev (jazzyElements movedWorld)"
    by auto
  then show ?thesis
    by (simp add: movedWorld_jazzyElements movedWorld_hasTag scrollWorld_hasTag)
qed

theorem init_visits_each_once_witness:
  "hasTag scrollWorld 11 \<and> hasTag scrollWorld 12 \<and> hasTag scrollWorld 13 \<and>
   jazzyElements scrollWorld = [11, 12, 13] \<and>
   (\<exists>w'. pollingInit scrollWorld = Inr w' \<and> isInViewportCalls w' = [13, 12, 11])"
proof -
  have tags: "\<forall>x\<in>set (jazzyElements scrollWorld). hasTag scrollWorld x"
    by (simp add: scrollWorld_jazzyElements scrollWorld_hasTag)
  have "isInViewportCalls scrollWorld = []"
    by (simp add: scrollWorld_def JazzyScroll_calls)
  then show ?thesis
    using init_visits_each_once [OF tags]
    by (auto simp: scrollWorld_jazzyElements scrollWorld_hasTag)
qed

section \<open>The boundary of the viewport\<close>

text \<open>
  C6. Without IntersectionObserver, an element whose top is exactly the viewport height
  minus its resolved offset is in the viewport (\<open><=\<close> holds with equality); when it
  is pending, the pass calls \<open>animateIn\<close> on it, removes it from the collection and
  leaves it with the class \<open>animated-in\<close>.
\<close>

theorem boundary_inclusive:
  assumes "jazzyOffset (nodes w e) = Some (Fin off)"
    and "boundingTop (nodes w e) = of_int (viewportBottom w) - of_int off"
    and "e \<in> set (jazzyElements w)"
    and "\<forall>x\<in>set (jazzyElements w). hasTag w x"
  shows "isInViewport w e \<and>
         (\<exists>w' calls. pollingInit w = Inr w' \<and>
            animateInCalls w' = animateInCalls w @ calls \<and> e \<in> set calls \<and>
            e \<notin> set (jazzyElements w') \<and>
            ''animated-in'' \<in> set (classList (nodes w' e)))"
proof -
  have view: "isInViewport w e"
    using assms(1,2) by (simp add: isInViewport_def)
  with assms(3) pollingInit_spec [OF assms(4)] show ?thesis
    by auto
qed

theorem boundary_inclusive_witness:
  "jazzyOffset (nodes scrollWorld 12) = Some (Fin 0) \<and>
   boundingTop (nodes scrollWorld 12) = of_int (viewportBottom scrollWorld) - of_int 0 \<and>
   12 \<in> set (jazzyElements scrollWorld) \<and>
   hasTag scrollWorld 11 \<and> hasTag scrollWorld 12 \<and> hasTag scrollWorld 13 \<and>
   isInViewport scrollWorld 12 \<and>
   (\<exists>w'. pollingInit scrollWorld = Inr w' \<and> 12 \<notin> set (jazzyElements w') \<and>
      ''animated-in'' \<in> set (classList (nodes w' 12)))"
proof -
  have tags: "\<forall>x\<in>set (jazzyElements scrollWorld). hasTag scrollWorld x"
    by (simp add: scrollWorld_jazzyElements scrollWorld_hasTag)
  have top: "boundingTop (nodes scrollWorld 12) = of_int (viewportBottom scrollWorld) - of_int 0"
    by (simp add: scrollWorld_def JazzyScroll_node_frame JazzyScroll_polling pollingEnv_def
        scrollPage_def blankElement_def)
  have mem: "12 \<in> set (jazzyElements scrollWorld)"
    by (simp add: scrollWorld_jazzyElements)
  show ?thesis
    using boundary_inclusive [OF scrollWorld_offset top mem tags] top mem
    by (auto simp: scrollWorld_offset scrollWorld_hasTag)
qed

section \<open>Counting elements\<close>

text \<open>
  C7. When the behaviour tag contains \<open>count\<close> and the start or the end number is
  NaN, \<open>animateIn\<close> returns without an error, starts no ramp and asks for no frame,
  leaves the text as it was, and the element has the class \<open>animated-in\<close>.
\<close>

theorem count_parse_failure:
  assumes "attributes (nodes w e) ''data-jazzy-scroll'' = Some t"
    and "includes_str t ''count''"
    and "isNaN (startNumber (nodes w e)) \<or> isNaN (endNumber (nodes w e))"
  shows "\<exists>w'. animateIn e w = Inr w' \<and>
           ramps w' = ramps w \<and> rafQueue w' = rafQueue w \<and>
           textContent (nodes w' e) = textContent (nodes w e) \<and>
           ''animated-in'' \<in> set (classList (nodes w' e))"
  using assms
  by (auto simp: animateIn_def Let_def updateNode_def classList_add_def)

theorem count_parse_failure_witness:
  "attributes (nodes scrollWorld 13) ''data-jazzy-scroll'' = Some ''count'' \<and>
   includes_str ''count'' ''count'' \<and>
   isNaN (endNumber (nodes scrollWorld 13)) \<and>
   (\<exists>w'. animateIn 13 scrollWorld = Inr w' \<and> ramps w' = [] \<and>
      textContent (nodes w' 13) = ''7'' \<and>
      ''animated-in'' \<in> set (classList (nodes w' 13)))"
proof -
  have tag: "attributes (nodes scrollWorld 13) ''data-jazzy-scroll'' = Some ''count''"
    by (simp add: scrollWorld_attributes scrollPage_def blankElement_def)
  have inc: "includes_str ''count'' ''count''"
    by simp
  have nan: "isNaN (startNumber (nodes scrollWorld 13)) \<or> isNaN (endNumber (nodes scrollWorld 13))"
    by (simp add: scrollWorld_end13)
  have "ramps scrollWorld = []"
    by (simp add: scrollWorld_def JazzyScroll_calls)
  moreover have "textContent (nodes scrollWorld 13) = ''7''"
    by (simp add: scrollWorld_textContent scrollPage_def blankElement_def)
  ultimately show ?thesis
    using count_parse_failure [OF tag inc nan] tag by (auto simp: scrollWorld_end13)
qed

text \<open>
  C3, as the code has it. When the behaviour tag contains \<open>count\<close> and both numbers
  parse, \<open>animateIn\<close> calls \<open>animateNumber\<close> with the element, the two numbers and
  the engine's speed \<open>_this.speed\<close> as the duration, whatever speed the element itself
  resolved to.
\<close>

theorem ramp_duration:
  assumes "attributes (nodes w e) ''data-jazzy-scroll'' = Some t"
    and "includes_str t ''count''"
    and "\<not> isNaN (startNumber (nodes w e))"
    and "\<not> isNaN (endNumber (nodes w e))"
  shows "\<exists>w'. animateIn e w = Inr w' \<and>
           ramps w' = ramps w @
             [\<lparr>rampElement = e, rampStart = startNumber (nodes w e),
               rampEnd = endNumber (nodes w e),
               rampDuration = Fin (of_int (speed w)), startTimestamp = None\<rparr>] \<and>
           rafQueue w' = rafQueue w @ [StepCallback (length (ramps w))]"
  using assms
  by (auto simp: animateIn_def Let_def updateNode_def animateNumber_def
      requestAnimationFrame_def)

text \<open>
  C3 as it was stated fails: element 12 carries \<open>data-jazzy-scroll-speed="1000"\<close> and
  resolved to \<open>1000ms\<close>, yet its ramp is started with the duration 500 of the engine.
\<close>

theorem ramp_duration_counterexample:
  "jazzySpeed (nodes scrollWorld 12) = Some ''1000ms'' \<and>
   \<not> isl (animateIn 12 scrollWorld) \<and>
   map rampDuration (ramps (projr (animateIn 12 scrollWorld))) = [Fin 500]"
proof -
  have "attributes (nodes scrollWorld 12) ''data-jazzy-scroll'' = Some ''jazzy-count''"
    by (simp add: scrollWorld_attributes scrollPage_def blankElement_def)
  moreover have "ramps scrollWorld = []"
    by (simp add: scrollWorld_def JazzyScroll_calls)
  ultimately show ?thesis
    by (simp add: animateIn_def Let_def updateNode_def animateNumber_def
        requestAnimationFrame_def scrollWorld_start12 scrollWorld_end12 scrollWorld_speed
        scrollWorld_jazzySpeed12)
qed

theorem ramp_duration_witness:
  "attributes (nodes scrollWorld 12) ''data-jazzy-scroll'' = Some ''jazzy-count'' \<and>
   includes_str ''jazzy-count'' ''count'' \<and>
   startNumber (nodes scrollWorld 12) = Fin 0 \<and>
   endNumber (nodes scrollWorld 12) = Fin 42 \<and>
   (\<exists>w'. animateIn 12 scrollWorld = Inr w' \<and>
      ramps w' = [\<lparr>rampElement = 12, rampStart = Fin 0, rampEnd = Fin 42,
                   rampDuration = Fin 500, startTimestamp = None\<rparr>])"
proof -
  have tag: "attributes (nodes scrollWorld 12) ''data-jazzy-scroll'' = Some ''jazzy-count''"
    by (simp add: scrollWorld_attributes scrollPage_def blankElement_def)
  have inc: "includes_str ''jazzy-count'' ''count''"
    by simp
  have s: "\<not> isNaN (startNumber (nodes scrollWorld 12))"
    and e: "\<not> isNaN (endNumber (nodes scrollWorld 12))"
    by (simp_all add: scrollWorld_start12 scrollWorld_end12)
  have "ramps scrollWorld = []"
    by (simp add: scrollWorld_def JazzyScroll_calls)
  then show ?thesis
    using ramp_duration [OF tag inc s e] tag
    by (auto simp: scrollWorld_start12 scrollWorld_end12 scrollWorld_speed)
qed

section \<open>Elements inserted later\<close>



section \<open>The shared options object\<close>

text \<open>
  C10. With IntersectionObserver, after \<open>addElement\<close> of an element A and then of an
  element B whose resolved offsets differ: \<open>A.options\<close> and \<open>B.options\<close> are the
  same reference, that of \<open>this.options\<close>; the margin of the object behind it is the
  one of B's offset and no longer the one of A's; and each of the two observers made
  holds the margin of its own element, read when the observer was made.
\<close>

theorem shared_options:
  assumes "supportsIntersectionObserver w"
    and "resolveOffset w (nodes w A) \<noteq> resolveOffset w (nodes w B)"
  shows "options (nodes (addElement B (addElement A w)) A) = Some (thisOptions w) \<and>
         options (nodes (addElement B (addElement A w)) B) = Some (thisOptions w) \<and>
         rootMargin (heap (addElement B (addElement A w)) (thisOptions w)) =
           marginOf (resolveOffset w (nodes w B)) \<and>
         rootMargin (heap (addElement B (addElement A w)) (thisOptions w)) \<noteq>
           marginOf (resolveOffset w (nodes w A)) \<and>
         intersectionObservers (addElement B (addElement A w)) =
           intersectionObservers w @
             [\<lparr>observerRootMargin = marginOf (resolveOffset w (nodes w A)),
               observerThresholds = threshold (heap w (thisOptions w)), targets = [A]\<rparr>,
              \<lparr>observerRootMargin = marginOf (resolveOffset w (nodes w B)),
               observerThresholds = threshold (heap w (thisOptions w)), targets = [B]\<rparr>]"
proof -
  have "marginOf (resolveOffset w (nodes w B)) \<noteq> marginOf (resolveOffset w (nodes w A))"
    using assms(2) marginOf_inj unfolding resolveOffset_def by metis
  then show ?thesis
    using addElement_twice [OF assms(1), of B A] by simp
qed

theorem shared_options_witness:
  "supportsIntersectionObserver observerWorld \<and>
   resolveOffset observerWorld (nodes observerWorld 21) = Fin 30 \<and>
   resolveOffset observerWorld (nodes observerWorld 22) = Fin 0 \<and>
   options (nodes (addElement 22 (addElement 21 observerWorld)) 21) =
     options (nodes (addElement 22 (addElement 21 observerWorld)) 22) \<and>
   rootMargin (heap (addElement 22 (addElement 21 observerWorld)) (thisOptions observerWorld)) =
     ''0px 0px 0px 0px'' \<and>
   map observerRootMargin (intersectionObservers (addElement 22 (addElement 21 observerWorld))) =
     [''0px 0px -30px 0px'', ''0px 0px 0px 0px''] \<and>
   map observerThresholds (intersectionObservers (addElement 22 (addElement 21 observerWorld))) =
     [[0, 1], [0, 1]]"
proof -
  have s: "supportsIntersectionObserver observerWorld"
    by (simp add: observerWorld_facts)
  have d: "resolveOffset observerWorld (nodes observerWorld 21) \<noteq>
      resolveOffset observerWorld (nodes observerWorld 22)"
    by (simp add: observerWorld_offsets)
  show ?thesis
    using shared_options [OF s d] s
    by (simp add: observerWorld_offsets observerWorld_facts margin_examples)
qed

section \<open>An element registered twice\<close>

text \<open>
  C2 says that \<open>animateIn\<close> runs at most once for an element, however the DOM
  changes. The code does not keep to it when an element that is tracked and still
  pending is reported again as an added node, as it is after being moved in the
  document: the selector still matches it, \<open>addElement\<close> registers it a second time,
  and each registration activates it. Without IntersectionObserver, element 11 is then
  twice in \<open>this.jazzyElements\<close> and one pass of \<open>init\<close> calls \<open>animateIn\<close> on it
  twice, the second time after it was activated. With IntersectionObserver, element 21
  has two observers, and the callback of each calls \<open>animateIn\<close> on it.
\<close>

theorem moved_element_animated_twice:
  "tracked scrollWorld = [11, 12, 13] \<and>
   tracked movedWorld = [11, 12, 13, 11] \<and>
   \<not> isl (pollingInit movedWorld) \<and>
   animateInCalls (projr (pollingInit movedWorld)) = [11, 12, 11] \<and>
   tracked movedObserverWorld = [21, 22, 21] \<and>
   animateInCalls
     (projr (intersectionCallback 2 [entry21]
        (projr (intersectionCallback 0 [entry21] movedObserverWorld)))) = [21, 21]"
proof -
  have e: "hasTag movedObserverWorld (target entry21)" "isIntersecting entry21"
    by (simp_all add: entry21_def movedObserverWorld_facts)
  from intersectionCallback_animates [OF e, of 0] obtain w1 where
    w1: "intersectionCallback 0 [entry21] movedObserverWorld = Inr w1"
      "animateInCalls w1 = [target entry21]" "hasTag w1 (target entry21)"
    using e(1) by (auto simp: movedObserverWorld_facts)
  from intersectionCallback_animates [OF w1(3) e(2), of 2] obtain w2 where
    w2: "intersectionCallback 2 [entry21] w1 = Inr w2"
      "animateInCalls w2 = [target entry21, target entry21]"
    using w1(2) by auto
  have obs: "animateInCalls
     (projr (intersectionCallback 2 [entry21]
        (projr (intersectionCallback 0 [entry21] movedObserverWorld)))) = [21, 21]"
    using w1(1) w2 by (simp add: entry21_def)
  have tags: "\<forall>x\<in>set (jazzyElements movedWorld). hasTag movedWorld x"
    by (simp add: movedWorld_jazzyElements movedWorld_hasTag scrollWorld_hasTag)
  have "animateInCalls scrollWorld = []"
    by (simp add: scrollWorld_def JazzyScroll_calls)
  then have "animateInCalls movedWorld = []"
    by (simp add: movedWorld_eq)
  with pollingInit_spec [OF tags] obtain w' where "pollingInit movedWorld = Inr w'"
    "animateInCalls w' = rev (filter (isInViewport movedWorld) (jazzyElements movedWorld))"
    by auto
  moreover have t: "tracked scrollWorld = [11, 12, 13]"
    using scrollWorld_polling by (simp add: tracked_def scrollWorld_jazzyElements)
  moreover have "tracked movedWorld = [11, 12, 13, 11]"
    using t by (simp add: movedWorld_eq)
  ultimately show ?thesis
    using obs by (simp add: movedWorld_jazzyElements movedWorld_isInViewport
        movedObserverWorld_facts)
qed

section \<open>The numeric ramp\<close>

text \<open>
  C4, as the code has it, in binary64: for a call of \<open>animateNumber\<close> with integer
  start and end of magnitude at most \<open>2^52\<close> and a positive duration, and two frames
  \<open>r, t\<close> and \<open>r', t'\<close> of that call. At elapsed 0, which the first frame always is,
  the value is the start. On a frame whose progress is 1 the value is exactly the end
  and no further frame is asked for; the progress is 1 as soon as the elapsed time
  reaches the duration. The value is always
  \<open>Math.floor(progress * (end - start) + start)\<close>, every operation rounded, and
  it is an integer when the elapsed time is not negative. Of two frames with elapsed
  times \<open>0 <= a <= a'\<close> the later one shows a value that is not smaller when
  \<open>start <= end\<close>, and not larger when \<open>end < start\<close>. A further frame is asked for
  exactly when the progress is below 1. The callback writes the value, as text, to the
  element.
\<close>

theorem ramp_frames:
  assumes "rampStart r = Fin s" "rampEnd r = Fin e" "rampDuration r = Fin d"
    and "rampStart r' = Fin s" "rampEnd r' = Fin e" "rampDuration r' = Fin d"
    and "0 < d" "\<bar>s\<bar> \<le> 2 ^ 52" "\<bar>e\<bar> \<le> 2 ^ 52"
  shows "(stepElapsed r t = Fin 0 \<longrightarrow> stepValue r t = Fin s) \<and>
         (startTimestamp r = None \<longrightarrow> stepElapsed r t = Fin 0) \<and>
         (stepProgress r t = Fin 1 \<longrightarrow> stepValue r t = Fin e \<and> \<not> stepAgain r t) \<and>
         (stepElapsed r t = Fin a \<and> d \<le> a \<longrightarrow> stepProgress r t = Fin 1) \<and>
         stepValue r t =
           Math_floor (dbl_add (dbl_mul (stepProgress r t) (Fin (of_int (e - s))))
                               (Fin (of_int s))) \<and>
         (stepElapsed r t = Fin a \<and> 0 \<le> a \<longrightarrow> (\<exists>n. stepValue r t = Fin n)) \<and>
         (stepElapsed r t = Fin a \<and> stepElapsed r' t' = Fin a' \<and> 0 \<le> a \<and> a \<le> a' \<longrightarrow>
            (s \<le> e \<longrightarrow> js_le (stepValue r t) (stepValue r' t')) \<and>
            (e < s \<longrightarrow> js_le (stepValue r' t') (stepValue r t))) \<and>
         stepAgain r t = js_lt (stepProgress r t) (Fin 1) \<and>
         (k < length (ramps w) \<and> ramps w ! k = r \<longrightarrow>
            textContent (nodes (step k t w) (rampElement r)) = numberToString (stepValue r t) \<and>
            rafQueue (step k t w) =
              rafQueue w @ (if stepAgain r t then [StepCallback k] else []))"
proof -
  note ends = stepValue_ends [OF assms(1,2,8,9)]
  have 1: "stepElapsed r t = Fin 0 \<longrightarrow> stepValue r t = Fin s"
  proof
    assume "stepElapsed r t = Fin 0"
    then have "stepProgress r t = Fin 0"
      using assms(7) by (simp add: stepProgress_def assms(3) dbl_div_Fin toDouble_zero)
    then show "stepValue r t = Fin s"
      by (rule ends(1))
  qed
  have 2: "startTimestamp r = None \<longrightarrow> stepElapsed r t = Fin 0"
    by (simp add: stepElapsed_def stepStart_def dbl_sub_def js_sub_def toDouble_zero)
  have 3: "stepProgress r t = Fin 1 \<longrightarrow> stepValue r t = Fin e \<and> \<not> stepAgain r t"
    using ends(2) by (simp add: stepAgain_def)
  have 4: "stepElapsed r t = Fin a \<and> d \<le> a \<longrightarrow> stepProgress r t = Fin 1"
    using progress_done [OF assms(7), of a] by (simp add: stepProgress_def assms(3))
  have 5: "stepValue r t =
      Math_floor (dbl_add (dbl_mul (stepProgress r t) (Fin (of_int (e - s)))) (Fin (of_int s)))"
    by (rule stepValue_unfold [OF assms(1,2,8,9)])
  have 6: "stepElapsed r t = Fin a \<and> 0 \<le> a \<longrightarrow> (\<exists>n. stepValue r t = Fin n)"
  proof
    assume el: "stepElapsed r t = Fin a \<and> 0 \<le> a"
    with progress_range [OF assms(7), of a] obtain p where
      "stepProgress r t = Fin p" "0 \<le> p" "p \<le> 1"
      by (auto simp: stepProgress_def assms(3))
    from stepValue_fin [OF assms(1,2,8,9) this] show "\<exists>n. stepValue r t = Fin n"
      by blast
  qed
  have 7: "stepElapsed r t = Fin a \<and> stepElapsed r' t' = Fin a' \<and> 0 \<le> a \<and> a \<le> a' \<longrightarrow>
      (s \<le> e \<longrightarrow> js_le (stepValue r t) (stepValue r' t')) \<and>
      (e < s \<longrightarrow> js_le (stepValue r' t') (stepValue r t))"
  proof
    assume el: "stepElapsed r t = Fin a \<and> stepElapsed r' t' = Fin a' \<and> 0 \<le> a \<and> a \<le> a'"
    then have a': "0 \<le> a'" by simp
    from el progress_range [OF assms(7), of a] obtain p where
      p: "stepProgress r t = Fin p" "0 \<le> p"
      by (auto simp: stepProgress_def assms(3))
    from el progress_range [OF assms(7) a'] obtain p' where
      p': "stepProgress r' t' = Fin p'" "p' \<le> 1"
      by (auto simp: stepProgress_def assms(6))
    have "Math_min (dbl_div (Fin a) (Fin d)) (Fin 1) = Fin p"
      "Math_min (dbl_div (Fin a') (Fin d)) (Fin 1) = Fin p'"
      using el p(1) p'(1) by (simp_all add: stepProgress_def assms(3,6))
    with el have "p \<le> p'"
      using progress_mono [OF assms(7), of a a' p p'] by simp
    from stepValue_mono [OF assms(1,2,4,5,8,9) p(1) p'(1) p(2) this p'(2)]
    show "(s \<le> e \<longrightarrow> js_le (stepValue r t) (stepValue r' t')) \<and>
      (e < s \<longrightarrow> js_le (stepValue r' t') (stepValue r t))"
      by blast
  qed
  have 8: "stepAgain r t = js_lt (stepProgress r t) (Fin 1)"
    by (simp add: stepAgain_def)
  have 9: "k < length (ramps w) \<and> ramps w ! k = r \<longrightarrow>
      textContent (nodes (step k t w) (rampElement r)) = numberToString (stepValue r t) \<and>
      rafQueue (step k t w) = rafQueue w @ (if stepAgain r t then [StepCallback k] else [])"
    using step_effect(1,2) [of k w t] by auto
  show ?thesis
    by (intro conjI 1 2 3 4 5 6 7 8 9)
qed

text \<open>
  C4 as it was stated, for every call, fails in two ways. With the duration \<open>-800\<close>
  (the engine passes it on when \<open>speed: -800\<close> is set), start 0 and end 100, the first
  frame shows 0 and a frame 400 ms later shows \<open>-50\<close>: the elapsed time grew and the
  value fell, although \<open>start <= end\<close>. With start \<open>-2\<close> and end \<open>2^53 - 1\<close> the
  difference \<open>end - start = 2^53 + 1\<close> is rounded to \<open>2^53\<close>, and the frame with
  progress 1 shows \<open>2^53 - 2\<close>, which is not the end.
\<close>

theorem ramp_frames_counterexample:
  "stepElapsed backRamp 1000 = Fin 0 \<and>
   stepValue backRamp 1000 = Fin 0 \<and>
   stepElapsed (backRamp\<lparr>startTimestamp := Some 1000\<rparr>) 1400 = Fin 400 \<and>
   stepValue (backRamp\<lparr>startTimestamp := Some 1000\<rparr>) 1400 = Fin (- 50) \<and>
   textContent (nodes (step 0 1000
      (animateNumber 12 (Fin 0) (Fin 100) (Fin (- 800)) scrollWorld)) 12) = ''0'' \<and>
   textContent (nodes (step 0 1400 (step 0 1000
      (animateNumber 12 (Fin 0) (Fin 100) (Fin (- 800)) scrollWorld))) 12) = ''-50'' \<and>
   rampStart wideRamp = Fin (- 2) \<and> rampEnd wideRamp = Fin 9007199254740991 \<and>
   rampDuration wideRamp = Fin 800 \<and>
   stepElapsed wideRamp 1800 = Fin 800 \<and>
   stepProgress wideRamp 1800 = Fin 1 \<and>
   stepValue wideRamp 1800 = Fin 9007199254740990"
proof -
  let ?w = "animateNumber 12 (Fin 0) (Fin 100) (Fin (- 800)) scrollWorld"
  note b = backRamp_frames
  have r1: "ramps (step 0 1000 ?w) = [backRamp\<lparr>startTimestamp := Some 1000\<rparr>]"
    by (simp add: step_effect(3) animateNumber_scrollWorld b(2))
  have el: "rampElement backRamp = 12"
    by (simp add: backRamp_def)
  have t1: "textContent (nodes (step 0 1000 ?w) 12) = ''0''"
    using step_effect(1) [of 0 ?w 1000]
    by (simp add: animateNumber_scrollWorld el b(3) text_examples)
  have t2: "textContent (nodes (step 0 1400 (step 0 1000 ?w)) 12) = ''-50''"
    using step_effect(1) [of 0 "step 0 1000 ?w" 1400]
    by (simp add: r1 el b(5) text_examples)
  have w: "rampStart wideRamp = Fin (- 2)" "rampEnd wideRamp = Fin 9007199254740991"
    "rampDuration wideRamp = Fin 800"
    by (simp_all add: wideRamp_def)
  show ?thesis
    by (intro conjI b(1) b(3) b(4) b(5) t1 t2 w wideRamp_frames)
qed

text \<open>
  The frames of \<open>upRamp\<close>: 0 on the first frame, 28 after 232 ms (the quotient
  \<open>232 / 800\<close> is rounded below \<open>0.29\<close>, and the product with 100 below 29), and 100
  after 800 ms, where the ramp stops.
\<close>

theorem ramp_frames_witness:
  "rampStart upRamp = Fin 0 \<and> rampEnd upRamp = Fin 100 \<and>
   rampDuration upRamp = Fin 800 \<and> (0::rat) < 800 \<and>
   \<bar>0::int\<bar> \<le> 2 ^ 52 \<and> \<bar>100::int\<bar> \<le> 2 ^ 52 \<and>
   startTimestamp upRamp = None \<and>
   stepElapsed upRamp 1000 = Fin 0 \<and>
   stepValue upRamp 1000 = Fin 0 \<and>
   stepAgain upRamp 1000 \<and>
   stepElapsed (upRamp\<lparr>startTimestamp := Some 1000\<rparr>) 1232 = Fin 232 \<and>
   stepValue (upRamp\<lparr>startTimestamp := Some 1000\<rparr>) 1232 = Fin 28 \<and>
   stepElapsed (upRamp\<lparr>startTimestamp := Some 1000\<rparr>) 1800 = Fin 800 \<and>
   stepProgress (upRamp\<lparr>startTimestamp := Some 1000\<rparr>) 1800 = Fin 1 \<and>
   stepValue (upRamp\<lparr>startTimestamp := Some 1000\<rparr>) 1800 = Fin 100 \<and>
   \<not> stepAgain (upRamp\<lparr>startTimestamp := Some 1000\<rparr>) 1800 \<and>
   js_le (stepValue (upRamp\<lparr>startTimestamp := Some 1000\<rparr>) 1232)
         (stepValue (upRamp\<lparr>startTimestamp := Some 1000\<rparr>) 1800) \<and>
   textContent (nodes (step 0 1000
      (animateNumber 12 (Fin 0) (Fin 100) (Fin 800) scrollWorld)) 12) = ''0'' \<and>
   rafQueue (step 0 1000 (animateNumber 12 (Fin 0) (Fin 100) (Fin 800) scrollWorld)) =
     rafQueue (animateNumber 12 (Fin 0) (Fin 100) (Fin 800) scrollWorld) @ [StepCallback 0]"
proof -
  let ?w = "animateNumber 12 (Fin 0) (Fin 100) (Fin 800) scrollWorld"
  let ?r = "upRamp\<lparr>startTimestamp := Some 1000\<rparr>"
  have a: "rampStart upRamp = Fin 0" "rampEnd upRamp = Fin 100" "rampDuration upRamp = Fin 800"
    and b: "rampStart ?r = Fin 0" "rampEnd ?r = Fin 100" "rampDuration ?r = Fin 800"
    and n: "startTimestamp upRamp = None" and el: "rampElement upRamp = 12"
    by (simp_all add: upRamp_def)
  have d: "(0::rat) < 800" and s: "\<bar>0::int\<bar> \<le> 2 ^ 52" and e: "\<bar>100::int\<bar> \<le> 2 ^ 52"
    by simp_all
  have e2: "stepElapsed ?r 1800 = Fin 800"
    by (simp add: stepElapsed_def stepStart_def dbl_sub_def js_sub_def toDouble_examples)
  have k: "0 < length (ramps ?w) \<and> ramps ?w ! 0 = upRamp"
    by (simp add: animateNumber_scrollWorld)
  note first = ramp_frames [OF a b d s e, of 1000 0 1800 800 0 ?w]
  note mid = ramp_frames [OF b b d s e, of 1232 232 1800 800 0 ?w]
  note last = ramp_frames [OF b a d s e, of 1800 800 1000 0 0 ?w]
  note f = upRamp_frame_232
  have e1: "stepElapsed upRamp 1000 = Fin 0"
    using first n by blast
  then have v1: "stepValue upRamp 1000 = Fin 0"
    using first by blast
  have p1: "stepProgress upRamp 1000 = Fin 0"
    by (simp add: stepProgress_def e1 a dbl_div_def toDouble_zero)
  have "stepAgain upRamp 1000 = js_lt (stepProgress upRamp 1000) (Fin 1)"
    using first by blast
  then have g1: "stepAgain upRamp 1000"
    by (simp add: p1)
  have "stepValue ?r 1232 =
      Math_floor (dbl_add (dbl_mul (stepProgress ?r 1232) (Fin (of_int (100 - 0))))
        (Fin (of_int 0)))"
    using mid by blast
  then have v232: "stepValue ?r 1232 = Fin 28"
    by (simp add: f(2) f(3))
  have "stepElapsed ?r 1800 = Fin 800 \<and> (800::rat) \<le> 800"
    by (simp add: e2)
  then have p2: "stepProgress ?r 1800 = Fin 1"
    using last by blast
  then have v2: "stepValue ?r 1800 = Fin 100" and g2: "\<not> stepAgain ?r 1800"
    using last by blast+
  have "stepElapsed ?r 1232 = Fin 232 \<and> stepElapsed ?r 1800 = Fin 800 \<and>
      (0::rat) \<le> 232 \<and> (232::rat) \<le> 800"
    by (simp add: f(1) e2)
  moreover have "(0::int) \<le> 100"
    by simp
  ultimately have m: "js_le (stepValue ?r 1232) (stepValue ?r 1800)"
    using mid by blast
  have "textContent (nodes (step 0 1000 ?w) (rampElement upRamp)) =
      numberToString (stepValue upRamp 1000)"
    and q: "rafQueue (step 0 1000 ?w) =
      rafQueue ?w @ (if stepAgain upRamp 1000 then [StepCallback 0] else [])"
    using first k by blast+
  then have t1: "textContent (nodes (step 0 1000 ?w) 12) = ''0''"
    and q1: "rafQueue (step 0 1000 ?w) = rafQueue ?w @ [StepCallback 0]"
    by (simp_all add: el v1 text_examples g1)
  show ?thesis
    by (intro conjI a d s e n e1 v1 g1 f(1) v232 e2 p2 v2 g2 m t1 q1)
qed

end
